theory Spec2Isabelle
  imports Main "HOL-Library.AList" "HOL-Library.Multiset" "HOL-Library.Word"
begin

section \<open>Python values used by the notebooks\<close>

text \<open>
  The notebooks are Python.  A \<open>dict\<close> keeps its keys in insertion order and a
  store to an existing key keeps the key's position, which is what
  \<open>AList.update\<close> does on an association list; \<open>map_of\<close> is the lookup and
  \<open>length\<close> is \<open>len\<close>.  \<open>IndexError\<close> and \<open>KeyError\<close> are the built-in lookup
  errors; \<open>ValueError\<close>, \<open>InvalidArgumentError\<close> and \<open>NotFoundError\<close> are what the
  framework raises on tensors of different lengths or an integer out of range, on a
  batch size of zero or bytes it cannot decode, and on a missing file.
\<close>

datatype error = IndexError | KeyError | ValueError | InvalidArgumentError | NotFoundError

type_synonym ('k, 'v) dict = "('k \<times> 'v) list"

text \<open>\<open>s.split(sep=c)\<close>: cuts at every occurrence of the separator, keeps empty
  pieces, and never returns an empty list.\<close>

fun split_sep :: "char \<Rightarrow> string \<Rightarrow> string list" where
  "split_sep c [] = [[]]"
| "split_sep c (x # xs) =
     (if x = c then [] # split_sep c xs
      else (case split_sep c xs of
              [] \<Rightarrow> [[x]]
            | w # ws \<Rightarrow> (x # w) # ws))"

text \<open>\<open>xs[-2]\<close> on a Python list.\<close>

definition second_to_last :: "'a list \<Rightarrow> error + 'a" where
  "second_to_last xs =
     (if 2 \<le> length xs then Inr (xs ! (length xs - 2)) else Inl IndexError)"

text \<open>\<open>d[k]\<close> on a Python dict.\<close>

definition dict_get :: "('k, 'v) dict \<Rightarrow> 'k \<Rightarrow> error + 'v" where
  "dict_get d k = (case map_of d k of None \<Rightarrow> Inl KeyError | Some v \<Rightarrow> Inr v)"

text \<open>\<open>numpy.zeros(n, dtype='uint8')\<close> and the store \<open>a[i] = v\<close> into a
  one-dimensional array: a negative index counts from the end, an index outside
  \<open>-n .. n-1\<close> raises.\<close>

definition zeros :: "nat \<Rightarrow> 8 word list" where
  "zeros n = replicate n 0"

definition array_set :: "8 word list \<Rightarrow> int \<Rightarrow> 8 word \<Rightarrow> error + 8 word list" where
  "array_set a i v =
     (let n = int (length a); j = (if i < 0 then n + i else i)
      in if 0 \<le> j \<and> j < n then Inr (a[nat j := v]) else Inl IndexError)"

section \<open>The benchmarking notebook: labels\<close>

text \<open>
  \<^verbatim>\<open>
  def get_label_map(path: str) -> (dict, dict):
      folders_name = tf.io.gfile.glob(path)
      labels = []
      for folder in folders_name:
          labels.append(folder.split(sep='/')[-1])
      label_map = {labels[i]:i for i in range(len(labels))}
      inv_label_map = {i:labels[i] for i in range(len(labels))}
      return label_map, inv_label_map
  \<close>
  The listing \<open>tf.io.gfile.glob\<close> belongs to the framework and is a parameter.
  \<open>split\<close> never returns an empty list, so \<open>[-1]\<close> is \<open>last\<close>.
\<close>

definition basename :: "string \<Rightarrow> string" where
  "basename folder = last (split_sep CHR ''/'' folder)"

definition get_label_map ::
  "(string \<Rightarrow> string list) \<Rightarrow> string \<Rightarrow> (string, int) dict \<times> (int, string) dict" where
  "get_label_map glob path =
     (let folders_name = glob path;
          labels = map basename folders_name;
          label_map = fold (\<lambda>i d. AList.update (labels ! i) (int i) d) [0..<length labels] [];
          inv_label_map = fold (\<lambda>i d. AList.update (int i) (labels ! i) d) [0..<length labels] []
      in (label_map, inv_label_map))"

text \<open>
  \<^verbatim>\<open>
  def one_hot_encode(label_map: dict, filepath: list) -> dict:
      labels = dict()
      for i in range(len(filepath)):
          encoding = zeros(len(label_map), dtype='uint8')
          encoding[label_map[filepath[i].split(sep='/')[-2]]] = 1
          labels.update({filepath[i]:list(encoding)})
      return labels
  \<close>
  One round of the loop is \<open>encode_path\<close>; the index expression is evaluated
  inside out, so \<open>[-2]\<close> fails before the dictionary lookup and the lookup before
  the store.  The loop stops at the first exception.
\<close>

definition parent_folder :: "string \<Rightarrow> error + string" where
  "parent_folder p = second_to_last (split_sep CHR ''/'' p)"

definition encode_path :: "(string, int) dict \<Rightarrow> string \<Rightarrow> error + 8 word list" where
  "encode_path label_map p =
     (let encoding = zeros (length label_map)
      in case parent_folder p of
           Inl e \<Rightarrow> Inl e
         | Inr folder \<Rightarrow>
             (case dict_get label_map folder of
                Inl e \<Rightarrow> Inl e
              | Inr idx \<Rightarrow> array_set encoding idx 1))"

fun one_hot_loop ::
  "(string, int) dict \<Rightarrow> string list \<Rightarrow> (string, 8 word list) dict
     \<Rightarrow> error + (string, 8 word list) dict" where
  "one_hot_loop label_map [] labels = Inr labels"
| "one_hot_loop label_map (p # ps) labels =
     (case encode_path label_map p of
        Inl e \<Rightarrow> Inl e
      | Inr encoding \<Rightarrow> one_hot_loop label_map ps (AList.update p encoding labels))"

definition one_hot_encode ::
  "(string, int) dict \<Rightarrow> string list \<Rightarrow> error + (string, 8 word list) dict" where
  "one_hot_encode label_map filepath = one_hot_loop label_map filepath []"

section \<open>Per-element preprocessing functions\<close>

text \<open>
  \<^verbatim>\<open>
  def scale(image, label):
      image = tf.cast(image, tf.float32)
      image /= 255
      return image, label

  def get_bytes_label(filepath, label):
      raw_bytes = tf.io.read_file(filepath)
      return raw_bytes, label

  def process_image(raw_bytes, label):
      image = tf.io.decode_jpeg(raw_bytes, channels=3)
      image = tf.image.convert_image_dtype(image, dtype=tf.float32)
      image = tf.image.resize(image, (224,224))
      return image, label
  \<close>
  The tensor operations are the framework's and are parameters of the model.
\<close>

definition scale ::
  "('img \<Rightarrow> 'fimg) \<Rightarrow> ('fimg \<Rightarrow> int \<Rightarrow> 'fimg) \<Rightarrow> 'img \<Rightarrow> 'lab \<Rightarrow> 'fimg \<times> 'lab" where
  "scale cast_float32 div_scalar img label =
     (let img = cast_float32 img;
          img = div_scalar img 255
      in (img, label))"

definition get_bytes_label ::
  "('path \<Rightarrow> 'bytes) \<Rightarrow> 'path \<Rightarrow> 'lab \<Rightarrow> 'bytes \<times> 'lab" where
  "get_bytes_label read_file filepath label =
     (let raw_bytes = read_file filepath in (raw_bytes, label))"

definition process_image ::
  "('bytes \<Rightarrow> nat \<Rightarrow> 'img) \<Rightarrow> ('img \<Rightarrow> 'fimg) \<Rightarrow> ('fimg \<Rightarrow> nat \<times> nat \<Rightarrow> 'fimg)
     \<Rightarrow> 'bytes \<Rightarrow> 'lab \<Rightarrow> 'fimg \<times> 'lab" where
  "process_image decode_jpeg convert_image_dtype resize raw_bytes label =
     (let img = decode_jpeg raw_bytes 3;
          img = convert_image_dtype img;
          img = resize img (224, 224)
      in (img, label))"


section \<open>The benchmarking notebook: the cached pipeline\<close>

text \<open>
  \<^verbatim>\<open>
  def build_dataset(dataset, batch_size=BATCH_SIZE, cache=False):
      dataset = dataset.shuffle(NUM_TOTAL_IMAGES)
      dataset = dataset.map(get_bytes_label, num_parallel_calls=AUTOTUNE)
      dataset = dataset.map(process_image, num_parallel_calls=AUTOTUNE)
      dataset = dataset.repeat()
      dataset = dataset.batch(batch_size=batch_size)
      if cache:
          if isinstance(cache, str):
              dataset = dataset.cache(filename=cache)
          else:
              dataset = dataset.cache()
      dataset = dataset.prefetch(buffer_size=AUTOTUNE)
      return dataset
  \<close>
  Each framework call wraps the dataset in one more operator.  A pipeline is the
  list of operators applied so far, oldest first; \<open>Cache None\<close> is the in-memory
  cache and \<open>Cache (Some f)\<close> the cache backed by file \<open>f\<close>.  The \<open>cache\<close>
  argument is an arbitrary Python value, tested for truth and for being a string.
\<close>

datatype map_fn = Get_bytes_label | Process_image

datatype stage =
    Shuffle nat
  | Map_stage map_fn
  | Repeat
  | Batch nat
  | Cache "string option"
  | Prefetch

datatype py_value = PyNone | PyBool bool | PyInt int | PyStr string

fun truthy :: "py_value \<Rightarrow> bool" where
  "truthy PyNone = False"
| "truthy (PyBool b) = b"
| "truthy (PyInt i) = (i \<noteq> 0)"
| "truthy (PyStr s) = (s \<noteq> [])"

fun isinstance_str :: "py_value \<Rightarrow> bool" where
  "isinstance_str (PyStr s) = True"
| "isinstance_str _ = False"

fun str_of :: "py_value \<Rightarrow> string" where
  "str_of (PyStr s) = s"
| "str_of _ = []"

definition build_dataset :: "nat \<Rightarrow> stage list \<Rightarrow> nat \<Rightarrow> py_value \<Rightarrow> stage list" where
  "build_dataset NUM_TOTAL_IMAGES dataset batch_size cache =
     (let dataset = dataset @ [Shuffle NUM_TOTAL_IMAGES];
          dataset = dataset @ [Map_stage Get_bytes_label];
          dataset = dataset @ [Map_stage Process_image];
          dataset = dataset @ [Repeat];
          dataset = dataset @ [Batch batch_size];
          dataset = (if truthy cache then
                       (if isinstance_str cache then dataset @ [Cache (Some (str_of cache))]
                        else dataset @ [Cache None])
                     else dataset);
          dataset = dataset @ [Prefetch]
      in dataset)"

fun is_cache :: "stage \<Rightarrow> bool" where
  "is_cache (Cache c) = True"
| "is_cache _ = False"

section \<open>The CNN quickstart notebook: the model\<close>

text \<open>
  \<^verbatim>\<open>
  model = tf.keras.Sequential([
      tf.keras.layers.Conv2D(32, 3, activation='relu', input_shape=(28, 28, 1)),
      tf.keras.layers.MaxPooling2D(),
      tf.keras.layers.Flatten(),
      tf.keras.layers.Dense(64, activation='relu'),
      tf.keras.layers.Dense(10)
  ])
  \<close>
  A layer is its constructor with the arguments the notebook passes; an omitted
  activation is the linear one, so the layer's outputs are logits.  The shape a
  layer produces follows the framework's defaults: a convolution with stride 1 and
  no padding, a pooling window of 2 by 2 with stride 2, a dense layer acting on the
  last axis.
\<close>

datatype activation = Relu | Linear

datatype layer =
    Conv2D nat nat activation "nat list option"
  | MaxPooling2D
  | Flatten
  | Dense nat activation

definition model :: "layer list" where
  "model =
     [Conv2D 32 3 Relu (Some [28, 28, 1]),
      MaxPooling2D,
      Flatten,
      Dense 64 Relu,
      Dense 10 Linear]"

fun layer_output_shape :: "layer \<Rightarrow> nat list \<Rightarrow> nat list option" where
  "layer_output_shape (Conv2D filters kernel_size act inp) [h, w, c] =
     (if (case inp of None \<Rightarrow> True | Some s \<Rightarrow> s = [h, w, c])
         \<and> 1 \<le> kernel_size \<and> kernel_size \<le> h \<and> kernel_size \<le> w
      then Some [h - kernel_size + 1, w - kernel_size + 1, filters] else None)"
| "layer_output_shape (Conv2D filters kernel_size act inp) _ = None"
| "layer_output_shape MaxPooling2D [h, w, c] = Some [h div 2, w div 2, c]"
| "layer_output_shape MaxPooling2D _ = None"
| "layer_output_shape Flatten s = Some [prod_list s]"
| "layer_output_shape (Dense units act) s =
     (if s = [] then None else Some (butlast s @ [units]))"

fun output_shape :: "layer list \<Rightarrow> nat list \<Rightarrow> nat list option" where
  "output_shape [] s = Some s"
| "output_shape (l # ls) s =
     (case layer_output_shape l s of None \<Rightarrow> None | Some s' \<Rightarrow> output_shape ls s')"

section \<open>The tabular-data notebook\<close>

text \<open>
  \<^verbatim>\<open>
  target = df.pop('target')
  dataset = tf.data.Dataset.from_tensor_slices((df.values, target.values))
  train_dataset = dataset.shuffle(10000).batch(1)
  model.fit(train_dataset, epochs=15)
  \<close>
  A data frame is its column labels and its rows, every row with one cell per
  column.  \<open>pop\<close> raises \<open>KeyError\<close> on a label that is not a column; otherwise it
  returns the column and removes it from the frame.  \<open>from_tensor_slices\<close> on a pair
  slices both tensors along the first axis and refuses tensors of different
  lengths.  The order \<open>shuffle\<close> produces is chosen at random by the framework and
  is a parameter.
\<close>

record 'a dataframe =
  columns :: "string list"
  rows :: "'a list list"

definition remove_nth :: "nat \<Rightarrow> 'a list \<Rightarrow> 'a list" where
  "remove_nth i xs = take i xs @ drop (Suc i) xs"

definition column_index :: "string \<Rightarrow> string list \<Rightarrow> nat" where
  "column_index name cols = length (takeWhile (\<lambda>c. c \<noteq> name) cols)"

definition df_pop :: "string \<Rightarrow> 'a dataframe \<Rightarrow> error + ('a list \<times> 'a dataframe)" where
  "df_pop name df =
     (if name \<in> set (columns df) then
        (let i = column_index name (columns df)
         in Inr (map (\<lambda>r. r ! i) (rows df),
                 \<lparr>columns = remove_nth i (columns df),
                  rows = map (remove_nth i) (rows df)\<rparr>))
      else Inl KeyError)"

definition df_values :: "'a dataframe \<Rightarrow> 'a list list" where
  "df_values df = rows df"

definition from_tensor_slices :: "'a list \<Rightarrow> 'b list \<Rightarrow> error + ('a \<times> 'b) list" where
  "from_tensor_slices xs ys =
     (if length xs = length ys then Inr (zip xs ys) else Inl ValueError)"

text \<open>\<open>Dataset.batch(batch_size)\<close> on a finite dataset: consecutive groups of
  \<open>batch_size\<close> elements, the last one shorter when the length is not a multiple
  (\<open>drop_remainder\<close> is left at its default).  A batch size of zero is refused.\<close>

definition batch_ds :: "nat \<Rightarrow> 'a list \<Rightarrow> 'a list list" where
  "batch_ds batch_size xs =
     map (\<lambda>i. take batch_size (drop (i * batch_size) xs))
         [0..<(length xs + batch_size - 1) div batch_size]"

definition batch :: "nat \<Rightarrow> 'a list \<Rightarrow> error + 'a list list" where
  "batch batch_size xs =
     (if batch_size = 0 then Inl InvalidArgumentError else Inr (batch_ds batch_size xs))"

text \<open>A batch of pairs is delivered as the pair of the component batches.\<close>

definition unzip_batch :: "('a \<times> 'b) list \<Rightarrow> 'a list \<times> 'b list" where
  "unzip_batch b = (map fst b, map snd b)"

definition tabular_dataset :: "'a dataframe \<Rightarrow> error + ('a list \<times> 'a) list" where
  "tabular_dataset df =
     (case df_pop ''target'' df of
        Inl e \<Rightarrow> Inl e
      | Inr (target, df') \<Rightarrow> from_tensor_slices (df_values df') target)"

definition train_dataset ::
  "(nat \<Rightarrow> ('a list \<times> 'a) list \<Rightarrow> ('a list \<times> 'a) list) \<Rightarrow> 'a dataframe
     \<Rightarrow> error + ('a list list \<times> 'a list) list" where
  "train_dataset shuffle df =
     (case tabular_dataset df of
        Inl e \<Rightarrow> Inl e
      | Inr dataset \<Rightarrow>
          (case batch 1 (shuffle 10000 dataset) of
             Inl e \<Rightarrow> Inl e
           | Inr bs \<Rightarrow> Inr (map unzip_batch bs)))"

text \<open>A frame is well formed when its labels are distinct and every row has one
  cell per column.\<close>

definition wf_dataframe :: "'a dataframe \<Rightarrow> bool" where
  "wf_dataframe df \<longleftrightarrow>
     distinct (columns df) \<and> list_all (\<lambda>r. length r = length (columns df)) (rows df)"

text \<open>The first two rows of the notebook's frame, as its output prints them.\<close>

definition heart_head :: "int dataframe" where
  "heart_head =
     \<lparr>columns = [''age'', ''sex'', ''cp'', ''trestbps'', ''chol'', ''fbs'', ''restecg'',
                 ''thalach'', ''exang'', ''oldpeak'', ''slope'', ''ca'', ''thal'', ''target''],
      rows = [[63, 1, 1, 145, 233, 1, 2, 150, 0, 23, 3, 0, 2, 0],
              [67, 1, 4, 160, 286, 0, 2, 108, 1, 15, 2, 3, 3, 1]]\<rparr>"

section \<open>The benchmarking notebook: writing TFRecord files\<close>

text \<open>
  \<^verbatim>\<open>
  def get_bytes_label_tfrecord(filepath, label):
      raw_bytes = tf.io.read_file(filepath)
      return raw_bytes, label

  def process_image_tfrecord(raw_bytes, label):
      image = tf.io.decode_jpeg(raw_bytes, channels=3)
      image = tf.image.resize(image, (224,224), method='nearest')
      image = tf.io.encode_jpeg(image, optimize_size=True)
      return image, label

  def build_dataset_tfrecord(dataset):
      dataset = dataset.map(get_bytes_label_tfrecord, num_parallel_calls=AUTOTUNE)
      dataset = dataset.map(process_image_tfrecord, num_parallel_calls=AUTOTUNE)
      return dataset
  \<close>
  The notebook later defines \<open>process_image_tfrecord\<close> again for reading; the
  version used for writing is \<open>process_image_tfrecord_write\<close> here.

  Reading a file and decoding, resizing and encoding an image are the framework's
  and are parameters.  Each of them can raise (a missing file, bytes that are no
  JPEG), so each returns an error or a value, and the authored functions pass the
  first error on.  A dataset built by \<open>map\<close> is lazy: nothing is read before the
  dataset is iterated, and the element whose function raises is where the iteration
  raises.  Such a dataset is the list of its elements in order, each an error or a
  value.
\<close>

definition get_bytes_label_tfrecord ::
  "('path \<Rightarrow> error + 'bytes) \<Rightarrow> 'path \<Rightarrow> 'lab \<Rightarrow> error + 'bytes \<times> 'lab" where
  "get_bytes_label_tfrecord read_file filepath label =
     (case read_file filepath of
        Inl e \<Rightarrow> Inl e
      | Inr raw_bytes \<Rightarrow> Inr (raw_bytes, label))"

definition process_image_tfrecord_write ::
  "('bytes \<Rightarrow> nat \<Rightarrow> error + 'img) \<Rightarrow> ('img \<Rightarrow> nat \<times> nat \<Rightarrow> error + 'img)
     \<Rightarrow> ('img \<Rightarrow> error + 'bytes) \<Rightarrow> 'bytes \<Rightarrow> 'lab \<Rightarrow> error + 'bytes \<times> 'lab" where
  "process_image_tfrecord_write decode_jpeg resize_nearest encode_jpeg raw_bytes label =
     (case decode_jpeg raw_bytes 3 of
        Inl e \<Rightarrow> Inl e
      | Inr img \<Rightarrow>
          (case resize_nearest img (224, 224) of
             Inl e \<Rightarrow> Inl e
           | Inr img \<Rightarrow>
               (case encode_jpeg img of
                  Inl e \<Rightarrow> Inl e
                | Inr img \<Rightarrow> Inr (img, label))))"

definition build_dataset_tfrecord ::
  "('path \<Rightarrow> error + 'bytes) \<Rightarrow> ('bytes \<Rightarrow> nat \<Rightarrow> error + 'img)
     \<Rightarrow> ('img \<Rightarrow> nat \<times> nat \<Rightarrow> error + 'img) \<Rightarrow> ('img \<Rightarrow> error + 'bytes)
     \<Rightarrow> ('path \<times> 'lab) list \<Rightarrow> (error + 'bytes \<times> 'lab) list" where
  "build_dataset_tfrecord read_file decode_jpeg resize_nearest encode_jpeg dataset =
     (let dataset = map (\<lambda>(filepath, label). get_bytes_label_tfrecord read_file filepath label)
                        dataset;
          dataset = map (\<lambda>element.
                           case element of
                             Inl e \<Rightarrow> Inl e
                           | Inr (raw_bytes, label) \<Rightarrow>
                               process_image_tfrecord_write decode_jpeg resize_nearest
                                 encode_jpeg raw_bytes label)
                        dataset
      in dataset)"

text \<open>
  \<^verbatim>\<open>
  def tf_serialize_example(image, label):
      def _bytes_feature(value):
          if isinstance(value, type(tf.constant(0))):
              value = value.numpy()
          return tf.train.Feature(bytes_list=tf.train.BytesList(value=[value]))
      def _float_feature(value):
          return tf.train.Feature(float_list=tf.train.FloatList(value=[value]))
      def _int64_feature(value):
          return tf.train.Feature(int64_list=tf.train.Int64List(value=value))
      def serialize_example(image, label):
          feature = {
              'image': _bytes_feature(image),
              'label': _int64_feature(label)
          }
          example_proto = tf.train.Example(features=tf.train.Features(feature=feature))
          return example_proto.SerializeToString()
      tf_string = serialize_example(image, label)
      return tf_string
  \<close>
  An example message is its feature dictionary.  \<open>Int64List\<close> holds signed 64-bit
  integers and raises \<open>ValueError\<close> on a value outside their range.  The wire
  encoding \<open>SerializeToString\<close> is the framework's and is a parameter.
\<close>

datatype ('bytes, 'float) feature =
    BytesList "'bytes list"
  | FloatList "'float list"
  | Int64List "int list"

type_synonym ('bytes, 'float) example = "(string, ('bytes, 'float) feature) dict"

definition in_int64_range :: "int \<Rightarrow> bool" where
  "in_int64_range v \<longleftrightarrow> - (2 ^ 63) \<le> v \<and> v < 2 ^ 63"

definition bytes_feature :: "'bytes \<Rightarrow> ('bytes, 'float) feature" where
  "bytes_feature v = BytesList [v]"

definition float_feature :: "'float \<Rightarrow> ('bytes, 'float) feature" where
  "float_feature v = FloatList [v]"

definition int64_feature :: "int list \<Rightarrow> error + ('bytes, 'float) feature" where
  "int64_feature v = (if list_all in_int64_range v then Inr (Int64List v) else Inl ValueError)"

definition serialize_example ::
  "(('bytes, 'float) example \<Rightarrow> 'ser) \<Rightarrow> 'bytes \<Rightarrow> int list \<Rightarrow> error + 'ser" where
  "serialize_example serialize_to_string img label =
     (let image_feature = bytes_feature img
      in case int64_feature label of
           Inl e \<Rightarrow> Inl e
         | Inr label_feature \<Rightarrow>
             (let feature = AList.update ''label'' label_feature
                              (AList.update ''image'' image_feature []);
                  example_proto = feature
              in Inr (serialize_to_string example_proto)))"

definition tf_serialize_example ::
  "(('bytes, 'float) example \<Rightarrow> 'ser) \<Rightarrow> 'bytes \<Rightarrow> int list \<Rightarrow> error + 'ser" where
  "tf_serialize_example serialize_to_string img label =
     (case serialize_example serialize_to_string img label of
        Inl e \<Rightarrow> Inl e
      | Inr tf_string \<Rightarrow> Inr tf_string)"

text \<open>
  \<^verbatim>\<open>
  def create_tfrecord(ds, n_shards):
      for i in range(n_shards):
          batch = map(lambda x: tf_serialize_example(x[0],x[1]), ds.shard(n_shards, i)
                      .apply(build_dataset_tfrecord)
                      .as_numpy_iterator())
          with tf.io.TFRecordWriter('output_file-part-{i}.tfrecord'.format(i=i), 'GZIP') as writer:
              print('Creating TFRecord ... output_file-part-{i}.tfrecord'.format(i=i))
              for a in batch:
                  writer.write(a)
  \<close>
  \<open>Dataset.shard(num_shards, index)\<close> keeps the elements whose position is
  \<open>index\<close> modulo \<open>num_shards\<close>.  \<open>'{i}'.format(i=i)\<close> is the decimal numeral of
  \<open>i\<close>.  The file system maps a file name to the records of the file; opening a
  writer starts an empty file and each \<open>write\<close> appends one record.

  \<open>batch\<close> is a lazy \<open>map\<close> over a lazy iterator, so an element is read, processed
  and serialized only when the inner loop asks for it.  An exception there leaves
  the inner loop, closes the writer with the records written so far, and leaves the
  outer loop: the shards after it are never opened.  \<open>create_tfrecord\<close> returns the
  file system it leaves behind and the exception, if one was raised.
\<close>

definition shard_ds :: "nat \<Rightarrow> nat \<Rightarrow> 'a list \<Rightarrow> 'a list" where
  "shard_ds num_shards index xs =
     map (\<lambda>j. xs ! j) (filter (\<lambda>j. j mod num_shards = index) [0..<length xs])"

definition digit_char :: "nat \<Rightarrow> char" where
  "digit_char d = char_of (48 + d)"

fun str_nat :: "nat \<Rightarrow> string" where
  "str_nat n = (if n < 10 then [digit_char n] else str_nat (n div 10) @ [digit_char (n mod 10)])"

declare str_nat.simps [simp del]

definition output_file :: "nat \<Rightarrow> string" where
  "output_file i = ''output_file-part-'' @ str_nat i @ ''.tfrecord''"

text \<open>\<open>for a in batch: writer.write(a)\<close>, from the records written so far.\<close>

fun write_records :: "(error + 'ser) list \<Rightarrow> 'ser list \<Rightarrow> 'ser list \<times> error option" where
  "write_records [] written = (written, None)"
| "write_records (Inl e # rest) written = (written, Some e)"
| "write_records (Inr a # rest) written = write_records rest (written @ [a])"

text \<open>One round of the outer loop.\<close>

definition write_shard ::
  "('path \<Rightarrow> error + 'bytes) \<Rightarrow> ('bytes \<Rightarrow> nat \<Rightarrow> error + 'img)
     \<Rightarrow> ('img \<Rightarrow> nat \<times> nat \<Rightarrow> error + 'img) \<Rightarrow> ('img \<Rightarrow> error + 'bytes)
     \<Rightarrow> (('bytes, 'float) example \<Rightarrow> 'ser)
     \<Rightarrow> ('path \<times> int list) list \<Rightarrow> nat \<Rightarrow> nat \<Rightarrow> (string \<rightharpoonup> 'ser list)
     \<Rightarrow> (string \<rightharpoonup> 'ser list) \<times> error option" where
  "write_shard read_file decode_jpeg resize_nearest encode_jpeg serialize_to_string
       ds n_shards i fs =
     (let batch = map (\<lambda>x. case x of
                               Inl e \<Rightarrow> Inl e
                             | Inr x \<Rightarrow> tf_serialize_example serialize_to_string (fst x) (snd x))
                      (build_dataset_tfrecord read_file decode_jpeg resize_nearest encode_jpeg
                         (shard_ds n_shards i ds));
          (written, raised) = write_records batch []
      in (fs(output_file i \<mapsto> written), raised))"

text \<open>\<open>for i in range(n_shards)\<close>, left at the first exception.\<close>

fun shard_loop ::
  "(nat \<Rightarrow> 'fs \<Rightarrow> 'fs \<times> error option) \<Rightarrow> nat list \<Rightarrow> 'fs \<Rightarrow> 'fs \<times> error option" where
  "shard_loop body [] fs = (fs, None)"
| "shard_loop body (i # is) fs =
     (case body i fs of
        (fs', Some e) \<Rightarrow> (fs', Some e)
      | (fs', None) \<Rightarrow> shard_loop body is fs')"

definition create_tfrecord ::
  "('path \<Rightarrow> error + 'bytes) \<Rightarrow> ('bytes \<Rightarrow> nat \<Rightarrow> error + 'img)
     \<Rightarrow> ('img \<Rightarrow> nat \<times> nat \<Rightarrow> error + 'img) \<Rightarrow> ('img \<Rightarrow> error + 'bytes)
     \<Rightarrow> (('bytes, 'float) example \<Rightarrow> 'ser)
     \<Rightarrow> ('path \<times> int list) list \<Rightarrow> nat \<Rightarrow> (string \<rightharpoonup> 'ser list)
     \<Rightarrow> (string \<rightharpoonup> 'ser list) \<times> error option" where
  "create_tfrecord read_file decode_jpeg resize_nearest encode_jpeg serialize_to_string
       ds n_shards fs =
     shard_loop
       (write_shard read_file decode_jpeg resize_nearest encode_jpeg serialize_to_string
          ds n_shards)
       [0..<n_shards] fs"

text \<open>
  \<open>is_record_of x a\<close>: every framework call on the element \<open>x\<close> returns, its label
  fits \<open>Int64List\<close>, and \<open>a\<close> is the serialized example holding the re-encoded image
  as a \<open>BytesList\<close> and the label as an \<open>Int64List\<close>.
\<close>

definition is_record_of ::
  "('path \<Rightarrow> error + 'bytes) \<Rightarrow> ('bytes \<Rightarrow> nat \<Rightarrow> error + 'img)
     \<Rightarrow> ('img \<Rightarrow> nat \<times> nat \<Rightarrow> error + 'img) \<Rightarrow> ('img \<Rightarrow> error + 'bytes)
     \<Rightarrow> (('bytes, 'float) example \<Rightarrow> 'ser)
     \<Rightarrow> 'path \<times> int list \<Rightarrow> 'ser \<Rightarrow> bool" where
  "is_record_of read_file decode_jpeg resize_nearest encode_jpeg serialize_to_string x a \<longleftrightarrow>
     (\<exists>raw_bytes decoded resized encoded.
        read_file (fst x) = Inr raw_bytes
      \<and> decode_jpeg raw_bytes 3 = Inr decoded
      \<and> resize_nearest decoded (224, 224) = Inr resized
      \<and> encode_jpeg resized = Inr encoded
      \<and> list_all in_int64_range (snd x)
      \<and> a = serialize_to_string
              [(''image'', BytesList [encoded]), (''label'', Int64List (snd x))])"

text \<open>The element of \<open>batch\<close> that the inner loop draws for an input element.\<close>

definition record_of ::
  "('path \<Rightarrow> error + 'bytes) \<Rightarrow> ('bytes \<Rightarrow> nat \<Rightarrow> error + 'img)
     \<Rightarrow> ('img \<Rightarrow> nat \<times> nat \<Rightarrow> error + 'img) \<Rightarrow> ('img \<Rightarrow> error + 'bytes)
     \<Rightarrow> (('bytes, 'float) example \<Rightarrow> 'ser)
     \<Rightarrow> 'path \<times> int list \<Rightarrow> error + 'ser" where
  "record_of read_file decode_jpeg resize_nearest encode_jpeg serialize_to_string x =
     (case (case get_bytes_label_tfrecord read_file (fst x) (snd x) of
              Inl e \<Rightarrow> Inl e
            | Inr (raw_bytes, label) \<Rightarrow>
                process_image_tfrecord_write decode_jpeg resize_nearest encode_jpeg
                  raw_bytes label) of
        Inl e \<Rightarrow> Inl e
      | Inr y \<Rightarrow> tf_serialize_example serialize_to_string (fst y) (snd y))"

section \<open>The benchmarking notebook: reading TFRecord files\<close>

text \<open>
  \<^verbatim>\<open>
  feature_description = {
      'image': tf.io.FixedLenFeature([], tf.string),
      'label': tf.io.FixedLenSequenceFeature([], tf.int64, allow_missing=True)
  }

  @tf.function
  def _parse_function(example_proto):
      return tf.io.parse_single_example(example_proto, feature_description)

  @tf.function
  def process_image_tfrecord(record):
      image = tf.io.decode_jpeg(record['image'], channels=3)
      image = tf.image.convert_image_dtype(image, dtype=tf.float32)
      label = record['label']
      return image, label

  @tf.function
  def get_tfrecord(filename):
      return tf.data.TFRecordDataset(filename, compression_type='GZIP',
                                     num_parallel_reads=AUTOTUNE)
  \<close>
  A parsed example is the record of its two features.  Reading a file, parsing
  one serialized example and the image operations are the framework's and are
  parameters; \<open>decode_jpeg\<close> takes the number of channels, 0 for the default
  (as many as the file has).
\<close>

record ('i, 'l) parsed =
  image_field :: 'i
  label_field :: 'l

definition parse_function ::
  "('ser \<Rightarrow> ('bytes, int list) parsed) \<Rightarrow> 'ser \<Rightarrow> ('bytes, int list) parsed" where
  "parse_function parse_single_example example_proto = parse_single_example example_proto"

definition process_image_tfrecord ::
  "('bytes \<Rightarrow> nat \<Rightarrow> 'img) \<Rightarrow> ('img \<Rightarrow> 'fimg) \<Rightarrow> ('bytes, 'lab) parsed \<Rightarrow> 'fimg \<times> 'lab" where
  "process_image_tfrecord decode_jpeg convert_image_dtype record =
     (let img = decode_jpeg (image_field record) 3;
          img = convert_image_dtype img;
          label = label_field record
      in (img, label))"

definition get_tfrecord :: "('fname \<Rightarrow> 'ser list) \<Rightarrow> 'fname \<Rightarrow> 'ser list" where
  "get_tfrecord tfrecord_dataset filename = tfrecord_dataset filename"

text \<open>
  The second version of the two functions, for a batch of serialized examples:
  \<^verbatim>\<open>
  @tf.function
  def _parse_function(example_proto):
      feature_description = { ... as above ... }
      return tf.io.parse_example(example_proto, feature_description)

  @tf.function
  def process_image_tfrecord(record):
      image = tf.map_fn(tf.io.decode_jpeg, record['image'], dtype=tf.uint8)
      image = tf.map_fn(lambda image:
                        tf.image.convert_image_dtype(image, dtype=tf.float32), image, dtype=tf.float32)
      label = record['label']
      return image, label
  \<close>
  \<open>parse_example\<close> follows the framework's documentation: every example of the batch
  is parsed as a single one is, a fixed-length feature is stacked, and a
  variable-length feature is padded with the default value, 0, to the longest of the
  batch.  \<open>map_fn\<close> applies a function to every entry along the first axis.
\<close>

definition pad_to :: "nat \<Rightarrow> int list \<Rightarrow> int list" where
  "pad_to m l = l @ replicate (m - length l) 0"

definition parse_example ::
  "('ser \<Rightarrow> ('bytes, int list) parsed) \<Rightarrow> 'ser list \<Rightarrow> ('bytes list, int list list) parsed" where
  "parse_example parse_single_example serialized =
     (let examples = map parse_single_example serialized;
          longest = fold max (map (\<lambda>e. length (label_field e)) examples) 0
      in \<lparr>image_field = map image_field examples,
          label_field = map (\<lambda>e. pad_to longest (label_field e)) examples\<rparr>)"

definition map_fn :: "('a \<Rightarrow> 'b) \<Rightarrow> 'a list \<Rightarrow> 'b list" where
  "map_fn f elems = map f elems"

definition parse_function_batched ::
  "('ser \<Rightarrow> ('bytes, int list) parsed) \<Rightarrow> 'ser list \<Rightarrow> ('bytes list, int list list) parsed" where
  "parse_function_batched parse_single_example example_proto =
     parse_example parse_single_example example_proto"

definition process_image_tfrecord_batched ::
  "('bytes \<Rightarrow> nat \<Rightarrow> 'img) \<Rightarrow> ('img \<Rightarrow> 'fimg) \<Rightarrow> ('bytes list, 'lab) parsed
     \<Rightarrow> 'fimg list \<times> 'lab" where
  "process_image_tfrecord_batched decode_jpeg convert_image_dtype record =
     (let img = map_fn (\<lambda>b. decode_jpeg b 0) (image_field record);
          img = map_fn (\<lambda>i. convert_image_dtype i) img;
          label = label_field record
      in (img, label))"

text \<open>
  \<open>repeat()\<close> makes the dataset endless, so from there on a dataset is given by
  its finite prefixes: \<open>ds k\<close> is the list of elements that the first \<open>k\<close> calls of
  \<open>next\<close> deliver, as \<open>timeit\<close> consumes them.  Repeating an empty dataset
  delivers nothing.  \<open>batch\<close> on such a dataset cuts the stream into groups of
  \<open>batch_size\<close>, across the seams between repetitions.  \<open>prefetch\<close> changes no
  element.
\<close>

type_synonym 'a stream_ds = "nat \<Rightarrow> 'a list"

definition repeat_ds :: "'a list \<Rightarrow> 'a stream_ds" where
  "repeat_ds xs k = (if xs = [] then [] else map (\<lambda>i. xs ! (i mod length xs)) [0..<k])"

definition batch_stream :: "nat \<Rightarrow> 'a stream_ds \<Rightarrow> error + 'a list stream_ds" where
  "batch_stream batch_size ds =
     (if batch_size = 0 then Inl InvalidArgumentError
      else Inr (\<lambda>k. take k (batch_ds batch_size (ds (k * batch_size)))))"

definition prefetch :: "'a stream_ds \<Rightarrow> 'a stream_ds" where
  "prefetch ds = ds"

text \<open>
  \<^verbatim>\<open>
  def build_dataset_test(dataset, batch_size=BATCH_SIZE):
      dataset = dataset.interleave(get_tfrecord, num_parallel_calls=AUTOTUNE)
      dataset = dataset.map(_parse_function, num_parallel_calls=AUTOTUNE)
      dataset = dataset.map(process_image_tfrecord, num_parallel_calls=AUTOTUNE)
      dataset = dataset.repeat()
      dataset = dataset.batch(batch_size=batch_size)
      dataset = dataset.prefetch(buffer_size=AUTOTUNE)
      return dataset
  \<close>
  The order in which \<open>interleave\<close> merges the files depends on a cycle length the
  framework tunes; the operator is a parameter, the same for both versions.  A batch
  of (image, label) pairs is delivered as (image batch, label batch).
\<close>

definition build_dataset_test ::
  "(('fname \<Rightarrow> 'ser list) \<Rightarrow> 'fname list \<Rightarrow> 'ser list) \<Rightarrow> ('fname \<Rightarrow> 'ser list)
     \<Rightarrow> ('ser \<Rightarrow> ('bytes, int list) parsed) \<Rightarrow> ('bytes \<Rightarrow> nat \<Rightarrow> 'img) \<Rightarrow> ('img \<Rightarrow> 'fimg)
     \<Rightarrow> 'fname list \<Rightarrow> nat \<Rightarrow> error + ('fimg list \<times> int list list) stream_ds" where
  "build_dataset_test interleave tfrecord_dataset parse_single_example decode_jpeg
       convert_image_dtype dataset batch_size =
     (let dataset = interleave (get_tfrecord tfrecord_dataset) dataset;
          dataset = map (parse_function parse_single_example) dataset;
          dataset = map (process_image_tfrecord decode_jpeg convert_image_dtype) dataset;
          dataset = repeat_ds dataset
      in case batch_stream batch_size dataset of
           Inl e \<Rightarrow> Inl e
         | Inr dataset \<Rightarrow> Inr (prefetch (\<lambda>k. map unzip_batch (dataset k))))"

text \<open>
  \<^verbatim>\<open>
  def build_dataset_test(dataset, batch_size=BATCH_SIZE):
      dataset = dataset.interleave(get_tfrecord, num_parallel_calls=AUTOTUNE)
      dataset = dataset.batch(batch_size=batch_size)
      dataset = dataset.map(_parse_function, num_parallel_calls=AUTOTUNE)
      dataset = dataset.map(process_image_tfrecord, num_parallel_calls=AUTOTUNE)
      dataset = dataset.repeat()
      dataset = dataset.prefetch(buffer_size=AUTOTUNE)
      return dataset
  \<close>
\<close>

definition build_dataset_test_batched ::
  "(('fname \<Rightarrow> 'ser list) \<Rightarrow> 'fname list \<Rightarrow> 'ser list) \<Rightarrow> ('fname \<Rightarrow> 'ser list)
     \<Rightarrow> ('ser \<Rightarrow> ('bytes, int list) parsed) \<Rightarrow> ('bytes \<Rightarrow> nat \<Rightarrow> 'img) \<Rightarrow> ('img \<Rightarrow> 'fimg)
     \<Rightarrow> 'fname list \<Rightarrow> nat \<Rightarrow> error + ('fimg list \<times> int list list) stream_ds" where
  "build_dataset_test_batched interleave tfrecord_dataset parse_single_example decode_jpeg
       convert_image_dtype dataset batch_size =
     (let dataset = interleave (get_tfrecord tfrecord_dataset) dataset
      in case batch batch_size dataset of
           Inl e \<Rightarrow> Inl e
         | Inr dataset \<Rightarrow>
             (let dataset = map (parse_function_batched parse_single_example) dataset;
                  dataset = map (process_image_tfrecord_batched decode_jpeg convert_image_dtype)
                              dataset;
                  dataset = repeat_ds dataset
              in Inr (prefetch dataset)))"

text \<open>What \<open>timeit\<close> sees of a pipeline in \<open>steps\<close> iterations.\<close>

definition first_elements :: "nat \<Rightarrow> error + 'a stream_ds \<Rightarrow> error + 'a list" where
  "first_elements steps ds = (case ds of Inl e \<Rightarrow> Inl e | Inr s \<Rightarrow> Inr (s steps))"

text \<open>Reading the files one after the other, which is what \<open>interleave\<close> does with
  a cycle length of one.\<close>

definition interleave_sequential :: "('fname \<Rightarrow> 'ser list) \<Rightarrow> 'fname list \<Rightarrow> 'ser list" where
  "interleave_sequential f filenames = concat (map f filenames)"

section \<open>Properties\<close>

subsection \<open>The label maps\<close>

lemma split_sep_nonempty: "split_sep c s \<noteq> []"
  by (induction s) (auto split: list.splits)

lemma update_fresh: "k \<notin> fst ` set al \<Longrightarrow> AList.update k v al = al @ [(k, v)]"
  by (induction al) auto

lemma fold_update_distinct:
  "inj_on f {..<n} \<Longrightarrow>
   fold (\<lambda>i d. AList.update (f i) (g i) d) [0..<n] [] = map (\<lambda>i. (f i, g i)) [0..<n]"
proof (induction n)
  case 0
  then show ?case by simp
next
  case (Suc n)
  have inj: "inj_on f {..<n}"
    using Suc.prems by (rule inj_on_subset) auto
  have fresh: "f n \<notin> fst ` set (map (\<lambda>i. (f i, g i)) [0..<n])"
  proof
    assume "f n \<in> fst ` set (map (\<lambda>i. (f i, g i)) [0..<n])"
    then obtain i where "i < n" "f i = f n" by auto
    with Suc.prems show False by (auto simp: inj_on_def)
  qed
  show ?case
    using Suc.IH [OF inj] fresh by (simp add: update_fresh)
qed

lemma map_of_tabulate:
  assumes inj: "inj_on f {..<n}" and j: "j < n"
  shows "map_of (map (\<lambda>i. (f i, g i)) [0..<n]) (f j) = Some (g j)"
proof -
  have d: "distinct (map fst (map (\<lambda>i. (f i, g i)) [0..<n]))"
    using inj by (simp add: comp_def distinct_map inj_on_def)
  have "(f j, g j) \<in> set (map (\<lambda>i. (f i, g i)) [0..<n])"
    using j by auto
  with d show ?thesis by (rule map_of_is_SomeI)
qed

text \<open>
  Claim C9.  When the basenames of the folders that \<open>glob\<close> lists are pairwise
  distinct, the two dictionaries \<open>get_label_map\<close> returns are inverse to each other:
  the keys of \<open>label_map\<close> are the basenames, the keys of \<open>inv_label_map\<close> are the
  indices \<open>0 .. n-1\<close>, looking a basename up and then its index gives the basename
  back, and looking an index up and then its name gives the index back.
\<close>

theorem get_label_map_inverse:
  assumes dist: "distinct (map basename (glob path))"
    and res: "get_label_map glob path = (label_map, inv_label_map)"
  shows "fst ` set label_map = set (map basename (glob path))
       \<and> fst ` set inv_label_map = int ` {0..<length (glob path)}
       \<and> (\<forall>name \<in> set (map basename (glob path)).
            \<exists>i. map_of label_map name = Some i \<and> map_of inv_label_map i = Some name)
       \<and> (\<forall>i < length (glob path).
            \<exists>name. map_of inv_label_map (int i) = Some name
                 \<and> map_of label_map name = Some (int i))"
proof -
  define labels where "labels = map basename (glob path)"
  define n where "n = length labels"
  have n: "n = length (glob path)" by (simp add: n_def labels_def)
  have injl: "inj_on (\<lambda>i. labels ! i) {..<n}"
    using dist unfolding labels_def [symmetric] n_def
    by (auto simp: inj_on_def nth_eq_iff_index_eq)
  have inji: "inj_on int {..<n}" by simp
  have lm: "label_map = map (\<lambda>i. (labels ! i, int i)) [0..<n]"
    using res fold_update_distinct [OF injl, of int]
    by (simp add: get_label_map_def Let_def labels_def n_def)
  have inv: "inv_label_map = map (\<lambda>i. (int i, labels ! i)) [0..<n]"
    using res fold_update_distinct [OF inji, of "\<lambda>i. labels ! i"]
    by (simp add: get_label_map_def Let_def labels_def n_def)
  have fwd: "map_of label_map (labels ! j) = Some (int j)" if "j < n" for j
    unfolding lm using map_of_tabulate [OF injl that, of int] .
  have bwd: "map_of inv_label_map (int j) = Some (labels ! j)" if "j < n" for j
    unfolding inv using map_of_tabulate [OF inji that, of "\<lambda>i. labels ! i"] .
  have keys: "fst ` set label_map = set labels"
  proof -
    have "map fst label_map = map (\<lambda>i. labels ! i) [0..<n]"
      by (simp add: lm comp_def)
    also have "\<dots> = labels" unfolding n_def by (rule map_nth)
    finally have "set (map fst label_map) = set labels" by simp
    then show ?thesis by simp
  qed
  have ikeys: "fst ` set inv_label_map = int ` {0..<n}"
    by (force simp add: inv)
  have a: "\<forall>name \<in> set labels. \<exists>i. map_of label_map name = Some i \<and> map_of inv_label_map i = Some name"
  proof
    fix name assume "name \<in> set labels"
    then obtain j where j: "j < n" "labels ! j = name"
      by (auto simp: in_set_conv_nth n_def)
    then show "\<exists>i. map_of label_map name = Some i \<and> map_of inv_label_map i = Some name"
      using fwd [of j] bwd [of j] by auto
  qed
  have b: "\<forall>i < n. \<exists>name. map_of inv_label_map (int i) = Some name \<and> map_of label_map name = Some (int i)"
    using fwd bwd by auto
  show ?thesis
    using keys ikeys a b unfolding labels_def [symmetric] n [symmetric] by blast
qed

text \<open>The two folders of a small bucket.\<close>

theorem get_label_map_inverse_witness:
  "distinct (map basename [''gs://b/x'', ''gs://b/y''])
   \<and> fst ` set (fst (get_label_map (\<lambda>_. [''gs://b/x'', ''gs://b/y'']) ''gs://b/*''))
       = {''x'', ''y''}
   \<and> (\<exists>i. map_of (fst (get_label_map (\<lambda>_. [''gs://b/x'', ''gs://b/y'']) ''gs://b/*'')) ''y''
            = Some i
          \<and> map_of (snd (get_label_map (\<lambda>_. [''gs://b/x'', ''gs://b/y'']) ''gs://b/*'')) i
            = Some ''y'')
   \<and> (\<exists>name. map_of (snd (get_label_map (\<lambda>_. [''gs://b/x'', ''gs://b/y'']) ''gs://b/*'')) 1
            = Some name
          \<and> map_of (fst (get_label_map (\<lambda>_. [''gs://b/x'', ''gs://b/y'']) ''gs://b/*'')) name
            = Some 1)"
proof -
  let ?glob = "\<lambda>_::string. [''gs://b/x'', ''gs://b/y'']"
  have b: "basename ''gs://b/x'' = ''x''" "basename ''gs://b/y'' = ''y''"
    by (simp_all add: basename_def)
  have h: "distinct (map basename (?glob ''gs://b/*''))"
    by (simp add: b)
  have r: "get_label_map ?glob ''gs://b/*''
           = (fst (get_label_map ?glob ''gs://b/*''), snd (get_label_map ?glob ''gs://b/*''))"
    by simp
  note t = get_label_map_inverse [OF h r]
  from t have 1: "fst ` set (fst (get_label_map ?glob ''gs://b/*'')) = {''x'', ''y''}"
    by (simp add: b insert_commute)
  from t have 2: "\<exists>i. map_of (fst (get_label_map ?glob ''gs://b/*'')) ''y'' = Some i
          \<and> map_of (snd (get_label_map ?glob ''gs://b/*'')) i = Some ''y''"
    by (simp add: b)
  from t have "\<forall>i<2. \<exists>name. map_of (snd (get_label_map ?glob ''gs://b/*'')) (int i) = Some name
          \<and> map_of (fst (get_label_map ?glob ''gs://b/*'')) name = Some (int i)"
    by simp
  then have 3: "\<exists>name. map_of (snd (get_label_map ?glob ''gs://b/*'')) 1 = Some name
          \<and> map_of (fst (get_label_map ?glob ''gs://b/*'')) name = Some 1"
    by (metis int_ops(2) one_less_numeral_iff semiring_norm(76))
  from h 1 2 3 show ?thesis by simp
qed

subsection \<open>Labels pass through preprocessing\<close>

text \<open>
  Claim C10.  \<open>scale\<close>, \<open>get_bytes_label\<close> and \<open>process_image\<close> return their label
  argument unchanged, whatever the framework's tensor operations do to the image.
\<close>

theorem preprocessing_keeps_label:
  "snd (scale cast_float32 div_scalar img label) = label
   \<and> snd (get_bytes_label read_file filepath label) = label
   \<and> snd (process_image decode_jpeg convert_image_dtype resize raw_bytes label) = label"
  by (simp add: scale_def get_bytes_label_def process_image_def Let_def)

subsection \<open>One-hot encoding\<close>

lemma encode_path_ok:
  assumes "parent_folder p = Inr folder" "map_of label_map folder = Some idx"
    and "0 \<le> idx" "idx < int (length label_map)"
  shows "encode_path label_map p = Inr ((replicate (length label_map) 0)[nat idx := 1])"
  using assms by (simp add: encode_path_def dict_get_def array_set_def zeros_def Let_def)

lemma encode_path_keyerror:
  assumes "parent_folder p = Inr folder" "map_of label_map folder = None"
  shows "encode_path label_map p = Inl KeyError"
  using assms by (simp add: encode_path_def dict_get_def Let_def)

lemma one_hot_loop_ok:
  assumes "\<forall>p \<in> set ps. encode_path label_map p = Inr (enc p)"
  shows "one_hot_loop label_map (ps @ rest) acc
         = one_hot_loop label_map rest (fold (\<lambda>p d. AList.update p (enc p) d) ps acc)"
  using assms by (induction ps arbitrary: acc) auto

lemma fold_update_keys:
  "fst ` set (fold (\<lambda>p d. AList.update p (enc p) d) ps acc) = fst ` set acc \<union> set ps"
  by (induction ps arbitrary: acc) (auto simp: dom_update)

lemma fold_update_distinct_keys:
  "distinct (map fst acc) \<Longrightarrow> distinct (map fst (fold (\<lambda>p d. AList.update p (enc p) d) ps acc))"
  by (induction ps arbitrary: acc) (auto simp: distinct_update)

lemma fold_update_lookup:
  "map_of (fold (\<lambda>p d. AList.update p (enc p) d) ps acc) q
   = (if q \<in> set ps then Some (enc q) else map_of acc q)"
  by (induction ps arbitrary: acc) (auto simp: update_conv')

text \<open>
  Claim C8, amended.  For a label map with distinct keys whose values lie in
  \<open>0 .. n-1\<close>, \<open>n\<close> its length: if every path has a second-to-last segment that is a
  key, \<open>one_hot_encode\<close> returns a dictionary whose keys are the distinct paths and
  whose value at a path has length \<open>n\<close>, holds only 0 and 1, and holds 1 exactly at
  the index of the path's parent folder.  If the first path that is not of this kind
  has a second-to-last segment and that segment is not a key, the call raises
  \<open>KeyError\<close>.
\<close>

theorem one_hot_encode_spec:
  assumes dist: "distinct (map fst label_map)"
    and range: "\<forall>(k, v) \<in> set label_map. 0 \<le> v \<and> v < int (length label_map)"
  shows "((\<forall>p \<in> set filepath. \<exists>folder idx.
             parent_folder p = Inr folder \<and> map_of label_map folder = Some idx)
          \<longrightarrow> (\<exists>labels. one_hot_encode label_map filepath = Inr labels
                \<and> distinct (map fst labels)
                \<and> fst ` set labels = set filepath
                \<and> (\<forall>p \<in> set filepath. \<exists>folder idx enc.
                      parent_folder p = Inr folder
                    \<and> map_of label_map folder = Some idx
                    \<and> map_of labels p = Some enc
                    \<and> length enc = length label_map
                    \<and> set enc \<subseteq> {0, 1}
                    \<and> nat idx < length enc
                    \<and> (\<forall>j < length enc. enc ! j = 1 \<longleftrightarrow> j = nat idx))))
       \<and> ((\<exists>pre p post folder. filepath = pre @ p # post
              \<and> (\<forall>q \<in> set pre. \<exists>folder idx.
                     parent_folder q = Inr folder \<and> map_of label_map folder = Some idx)
              \<and> parent_folder p = Inr folder \<and> map_of label_map folder = None)
          \<longrightarrow> one_hot_encode label_map filepath = Inl KeyError)"
proof (intro conjI impI)
  define n where "n = length label_map"
  define enc where
    "enc p = (replicate n 0)[nat (the (map_of label_map (projr (parent_folder p)))) := (1::8 word)]" for p
  have good_enc: "encode_path label_map p = Inr (enc p)"
    if "\<exists>folder idx. parent_folder p = Inr folder \<and> map_of label_map folder = Some idx" for p
  proof -
    from that obtain folder idx where f: "parent_folder p = Inr folder"
      and i: "map_of label_map folder = Some idx" by blast
    from i have "(folder, idx) \<in> set label_map" by (rule map_of_SomeD)
    with range have "0 \<le> idx" "idx < int (length label_map)" by auto
    from encode_path_ok [OF f i this] show ?thesis
      by (simp add: enc_def n_def f i)
  qed
  {
    assume good: "\<forall>p \<in> set filepath. \<exists>folder idx.
             parent_folder p = Inr folder \<and> map_of label_map folder = Some idx"
    define labels where "labels = fold (\<lambda>p d. AList.update p (enc p) d) filepath []"
    have all: "\<forall>p \<in> set filepath. encode_path label_map p = Inr (enc p)"
      using good good_enc by blast
    have res: "one_hot_encode label_map filepath = Inr labels"
      using one_hot_loop_ok [OF all, of "[]" "[]"] by (simp add: one_hot_encode_def labels_def)
    have d: "distinct (map fst labels)"
      unfolding labels_def by (rule fold_update_distinct_keys) simp
    have k: "fst ` set labels = set filepath"
      unfolding labels_def by (simp add: fold_update_keys)
    have v: "\<exists>folder idx e.
                      parent_folder p = Inr folder
                    \<and> map_of label_map folder = Some idx
                    \<and> map_of labels p = Some e
                    \<and> length e = length label_map
                    \<and> set e \<subseteq> {0, 1}
                    \<and> nat idx < length e
                    \<and> (\<forall>j < length e. e ! j = 1 \<longleftrightarrow> j = nat idx)"
      if p: "p \<in> set filepath" for p
    proof -
      from good p obtain folder idx where f: "parent_folder p = Inr folder"
        and i: "map_of label_map folder = Some idx" by blast
      from i have "(folder, idx) \<in> set label_map" by (rule map_of_SomeD)
      with range have r: "0 \<le> idx" "idx < int n" by (auto simp: n_def)
      have e: "enc p = (replicate n 0)[nat idx := 1]" by (simp add: enc_def f i)
      have l: "map_of labels p = Some (enc p)"
        unfolding labels_def using p by (simp add: fold_update_lookup)
      have lt: "nat idx < n" using r by simp
      have s: "set (enc p) \<subseteq> {0, 1}"
        unfolding e using set_update_subset_insert [of "replicate n (0::8 word)" "nat idx" 1]
        by auto
      have o: "\<forall>j < length (enc p). enc p ! j = 1 \<longleftrightarrow> j = nat idx"
        unfolding e using lt by (auto simp: nth_list_update)
      show ?thesis
        using f i l s o lt by (intro exI [of _ folder] exI [of _ idx] exI [of _ "enc p"]) (simp add: e n_def)
    qed
    show "\<exists>labels. one_hot_encode label_map filepath = Inr labels
                \<and> distinct (map fst labels)
                \<and> fst ` set labels = set filepath
                \<and> (\<forall>p \<in> set filepath. \<exists>folder idx enc.
                      parent_folder p = Inr folder
                    \<and> map_of label_map folder = Some idx
                    \<and> map_of labels p = Some enc
                    \<and> length enc = length label_map
                    \<and> set enc \<subseteq> {0, 1}
                    \<and> nat idx < length enc
                    \<and> (\<forall>j < length enc. enc ! j = 1 \<longleftrightarrow> j = nat idx))"
      using res d k v by blast
  }
  {
    assume "\<exists>pre p post folder. filepath = pre @ p # post
              \<and> (\<forall>q \<in> set pre. \<exists>folder idx.
                     parent_folder q = Inr folder \<and> map_of label_map folder = Some idx)
              \<and> parent_folder p = Inr folder \<and> map_of label_map folder = None"
    then obtain pre p post folder where fp: "filepath = pre @ p # post"
      and good: "\<forall>q \<in> set pre. \<exists>folder idx.
                     parent_folder q = Inr folder \<and> map_of label_map folder = Some idx"
      and f: "parent_folder p = Inr folder" and nk: "map_of label_map folder = None"
      by blast
    have all: "\<forall>q \<in> set pre. encode_path label_map q = Inr (enc q)"
      using good good_enc by blast
    show "one_hot_encode label_map filepath = Inl KeyError"
      unfolding one_hot_encode_def fp one_hot_loop_ok [OF all]
      by (simp add: encode_path_keyerror [OF f nk])
  }
qed

theorem one_hot_encode_spec_witness:
  "distinct (map fst [(''x'', 0::int), (''y'', 1)])
   \<and> list_all (\<lambda>(k, v). 0 \<le> v \<and> v < 2) [(''x'', 0::int), (''y'', 1)]
   \<and> list_all (\<lambda>p. \<exists>folder idx. parent_folder p = Inr folder
                     \<and> map_of [(''x'', 0::int), (''y'', 1)] folder = Some idx)
        [''gs://b/x/1.jpg'', ''gs://b/y/2.jpg'', ''gs://b/x/1.jpg'']
   \<and> (\<exists>labels. one_hot_encode [(''x'', 0), (''y'', 1)]
                  [''gs://b/x/1.jpg'', ''gs://b/y/2.jpg'', ''gs://b/x/1.jpg''] = Inr labels
               \<and> fst ` set labels = {''gs://b/x/1.jpg'', ''gs://b/y/2.jpg''})
   \<and> parent_folder ''gs://b/z/3.jpg'' = Inr ''z''
   \<and> map_of [(''x'', 0::int), (''y'', 1)] ''z'' = None
   \<and> one_hot_encode [(''x'', 0), (''y'', 1)] [''gs://b/x/1.jpg'', ''gs://b/z/3.jpg'']
       = Inl KeyError"
proof -
  let ?lm = "[(''x'', 0::int), (''y'', 1)]"
  let ?ok = "[''gs://b/x/1.jpg'', ''gs://b/y/2.jpg'', ''gs://b/x/1.jpg'']"
  have d: "distinct (map fst ?lm)" by simp
  have r: "\<forall>(k, v) \<in> set ?lm. 0 \<le> v \<and> v < int (length ?lm)" by simp
  have px: "parent_folder ''gs://b/x/1.jpg'' = Inr ''x''"
    by (simp add: parent_folder_def second_to_last_def)
  have py: "parent_folder ''gs://b/y/2.jpg'' = Inr ''y''"
    by (simp add: parent_folder_def second_to_last_def)
  have pz: "parent_folder ''gs://b/z/3.jpg'' = Inr ''z''"
    by (simp add: parent_folder_def second_to_last_def)
  have nz: "map_of ?lm ''z'' = None" by simp
  have g: "\<forall>p \<in> set ?ok. \<exists>folder idx. parent_folder p = Inr folder
                     \<and> map_of ?lm folder = Some idx"
    using px py by simp
  have pre: "\<exists>pre p post folder. [''gs://b/x/1.jpg'', ''gs://b/z/3.jpg''] = pre @ p # post
              \<and> (\<forall>q \<in> set pre. \<exists>folder idx.
                     parent_folder q = Inr folder \<and> map_of ?lm folder = Some idx)
              \<and> parent_folder p = Inr folder \<and> map_of ?lm folder = None"
    using px pz nz
    by (intro exI [of _ "[''gs://b/x/1.jpg'']"] exI [of _ "''gs://b/z/3.jpg''"]
              exI [of _ "[]"] exI [of _ "''z''"]) simp
  from one_hot_encode_spec [OF d r, of ?ok] g
  have 1: "\<exists>labels. one_hot_encode ?lm ?ok = Inr labels
               \<and> fst ` set labels = {''gs://b/x/1.jpg'', ''gs://b/y/2.jpg''}"
    by auto
  from one_hot_encode_spec [OF d r, of "[''gs://b/x/1.jpg'', ''gs://b/z/3.jpg'']"] pre
  have 2: "one_hot_encode ?lm [''gs://b/x/1.jpg'', ''gs://b/z/3.jpg''] = Inl KeyError"
    by blast
  from d r g 1 2 pz nz show ?thesis by (simp add: list_all_iff)
qed

text \<open>
  Claim C8 as stated promises \<open>KeyError\<close> whenever some path's parent folder is not a
  key.  A path without a second-to-last segment earlier in the list raises
  \<open>IndexError\<close> first.
\<close>

theorem one_hot_encode_keyerror_counterexample:
  "distinct (map fst [(''a'', 0::int)])
   \<and> ''q/b/c'' \<in> set [''x'', ''q/b/c'']
   \<and> parent_folder ''q/b/c'' = Inr ''b''
   \<and> map_of [(''a'', 0::int)] ''b'' = None
   \<and> one_hot_encode [(''a'', 0)] [''x'', ''q/b/c''] = Inl IndexError
   \<and> one_hot_encode [(''a'', 0)] [''x'', ''q/b/c''] \<noteq> Inl KeyError"
  by (simp add: one_hot_encode_def encode_path_def parent_folder_def second_to_last_def)

subsection \<open>The convolutional model\<close>

text \<open>
  Claim C5.  The model of the CNN notebook starts with a convolution of 32 filters,
  kernel size 3 and relu activation, declared for inputs of shape 28 x 28 x 1, and
  ends with a dense layer of 10 units without activation: on an input of that shape
  the network outputs 10 logits.
\<close>

theorem model_is_convolutional_classifier:
  "hd model = Conv2D 32 3 Relu (Some [28, 28, 1])
   \<and> last model = Dense 10 Linear
   \<and> layer_output_shape (hd model) [28, 28, 1] = Some [26, 26, 32]
   \<and> output_shape model [28, 28, 1] = Some [10]"
  by (simp add: model_def)

subsection \<open>Caching in the image pipeline\<close>

lemma build_dataset_added:
  "build_dataset N dataset batch_size cache =
     dataset @ [Shuffle N, Map_stage Get_bytes_label, Map_stage Process_image, Repeat,
                Batch batch_size]
       @ (if truthy cache then [Cache (if isinstance_str cache then Some (str_of cache) else None)]
          else [])
       @ [Prefetch]"
  by (simp add: build_dataset_def Let_def)

text \<open>
  Claim C7.  Among the operators \<open>build_dataset\<close> adds to its input there is a cache
  if and only if the \<open>cache\<close> argument is truthy; it is then the only one, backed by
  the file named by \<open>cache\<close> when \<open>cache\<close> is a string and in memory otherwise.  With
  a falsy \<open>cache\<close> and an input without a cache the returned pipeline has none.
\<close>

theorem build_dataset_cache_iff:
  "(list_ex is_cache (drop (length dataset) (build_dataset N dataset batch_size cache))
      \<longleftrightarrow> truthy cache)
   \<and> (truthy cache \<and> isinstance_str cache \<longrightarrow>
        filter is_cache (drop (length dataset) (build_dataset N dataset batch_size cache))
          = [Cache (Some (str_of cache))])
   \<and> (truthy cache \<and> \<not> isinstance_str cache \<longrightarrow>
        filter is_cache (drop (length dataset) (build_dataset N dataset batch_size cache))
          = [Cache None])
   \<and> (\<not> truthy cache \<and> \<not> list_ex is_cache dataset \<longrightarrow>
        \<not> list_ex is_cache (build_dataset N dataset batch_size cache))"
  by (simp add: build_dataset_added)

theorem build_dataset_cache_iff_witness:
  "truthy (PyStr ''./dog.tfcache'') \<and> isinstance_str (PyStr ''./dog.tfcache'')
   \<and> filter is_cache (build_dataset 20580 [] 1 (PyStr ''./dog.tfcache''))
        = [Cache (Some ''./dog.tfcache'')]
   \<and> truthy (PyBool True) \<and> \<not> isinstance_str (PyBool True)
   \<and> filter is_cache (build_dataset 20580 [] 1 (PyBool True)) = [Cache None]
   \<and> \<not> truthy (PyBool False) \<and> \<not> list_ex is_cache []
   \<and> \<not> list_ex is_cache (build_dataset 20580 [] 1 (PyBool False))"
proof -
  have a: "truthy (PyStr ''./dog.tfcache'') \<and> isinstance_str (PyStr ''./dog.tfcache'')"
    by simp
  have b: "truthy (PyBool True) \<and> \<not> isinstance_str (PyBool True)" by simp
  have c: "\<not> truthy (PyBool False) \<and> \<not> list_ex is_cache []" by simp
  from build_dataset_cache_iff [of "[]" 20580 1 "PyStr ''./dog.tfcache''"] a
  have 1: "filter is_cache (build_dataset 20580 [] 1 (PyStr ''./dog.tfcache''))
        = [Cache (Some ''./dog.tfcache'')]" by simp
  from build_dataset_cache_iff [of "[]" 20580 1 "PyBool True"] b
  have 2: "filter is_cache (build_dataset 20580 [] 1 (PyBool True)) = [Cache None]" by simp
  from build_dataset_cache_iff [of "[]" 20580 1 "PyBool False"] c
  have 3: "\<not> list_ex is_cache (build_dataset 20580 [] 1 (PyBool False))" by blast
  from a b c 1 2 3 show ?thesis by blast
qed

subsection \<open>Features and target of the tabular data\<close>

lemma column_index_less: "name \<in> set cols \<Longrightarrow> column_index name cols < length cols"
  unfolding column_index_def by (induction cols) auto

lemma column_index_nth: "name \<in> set cols \<Longrightarrow> cols ! column_index name cols = name"
  unfolding column_index_def by (induction cols) auto

lemma column_index_of_nth:
  "distinct cols \<Longrightarrow> i < length cols \<Longrightarrow> column_index (cols ! i) cols = i"
  unfolding column_index_def
proof (induction cols arbitrary: i)
  case Nil
  then show ?case by simp
next
  case (Cons c cols)
  then show ?case by (cases i) auto
qed

lemma length_remove_nth: "i < length xs \<Longrightarrow> length (remove_nth i xs) = length xs - 1"
  by (simp add: remove_nth_def)

lemma nth_remove_nth:
  "j < length xs - 1 \<Longrightarrow> i < length xs \<Longrightarrow>
   remove_nth i xs ! j = (if j < i then xs ! j else xs ! Suc j)"
  by (auto simp: remove_nth_def nth_append)

lemma set_remove_nth:
  "distinct xs \<Longrightarrow> i < length xs \<Longrightarrow> set (remove_nth i xs) = set xs - {xs ! i}"
proof -
  assume d: "distinct xs" and i: "i < length xs"
  have xs: "xs = take i xs @ xs ! i # drop (Suc i) xs"
    using i by (simp add: id_take_nth_drop)
  have "distinct (take i xs @ xs ! i # drop (Suc i) xs)" using d xs by simp
  then have "xs ! i \<notin> set (take i xs)" "xs ! i \<notin> set (drop (Suc i) xs)" by auto
  moreover have "set xs = set (take i xs) \<union> {xs ! i} \<union> set (drop (Suc i) xs)"
    by (subst xs) auto
  ultimately show ?thesis by (auto simp: remove_nth_def)
qed

lemma distinct_remove_nth:
  assumes "distinct xs"
  shows "distinct (remove_nth i xs)"
proof -
  have "distinct (take i xs @ drop i xs)" using assms by simp
  then have disj: "set (take i xs) \<inter> set (drop i xs) = {}"
    unfolding distinct_append by blast
  have sub: "set (drop (Suc i) xs) \<subseteq> set (drop i xs)"
    by (rule set_drop_subset_set_drop) simp
  show ?thesis
    using assms disj sub by (auto simp: remove_nth_def)
qed

lemma batch_ds_one: "batch_ds 1 xs = map (\<lambda>x. [x]) xs"
proof (rule nth_equalityI)
  show "length (batch_ds 1 xs) = length (map (\<lambda>x. [x]) xs)"
    by (simp add: batch_ds_def)
next
  fix i assume "i < length (batch_ds 1 xs)"
  then have i: "i < length xs" by (simp add: batch_ds_def)
  then have "take 1 (drop i xs) = [xs ! i]"
    by (simp add: take_Suc_conv_app_nth [of 0] Cons_nth_drop_Suc [symmetric])
  with i show "batch_ds 1 xs ! i = map (\<lambda>x. [x]) xs ! i"
    by (simp add: batch_ds_def)
qed

lemma remaining_column:
  assumes d: "distinct cols" and t: "t < length cols" and len: "length row = length cols"
    and c: "c \<in> set (remove_nth t cols)"
  shows "remove_nth t row ! column_index c (remove_nth t cols) = row ! column_index c cols"
proof -
  define cols' where "cols' = remove_nth t cols"
  define j where "j = column_index c cols'"
  have d': "distinct cols'" unfolding cols'_def using d by (rule distinct_remove_nth)
  have l': "length cols' = length cols - 1" unfolding cols'_def using t by (rule length_remove_nth)
  have j: "j < length cols - 1"
    using column_index_less [of c cols'] c l' by (simp add: j_def cols'_def)
  have cj: "cols' ! j = c"
    using column_index_nth [of c cols'] c by (simp add: j_def cols'_def)
  define k where "k = (if j < t then j else Suc j)"
  have k: "k < length cols" using j t by (auto simp: k_def)
  have "cols ! k = c"
    using nth_remove_nth [OF j t] cj by (auto simp: k_def cols'_def split: if_splits)
  then have ck: "column_index c cols = k"
    using column_index_of_nth [OF d k] by simp
  have "remove_nth t row ! j = row ! k"
    using nth_remove_nth [of j row t] j t len by (simp add: k_def)
  then show ?thesis by (simp add: ck j_def cols'_def)
qed

text \<open>
  Claim C6.  For a well-formed frame with a \<open>target\<close> column, \<open>pop\<close> removes that
  column, so \<open>target\<close> is not among the columns the dataset is built from.  The
  dataset has one element per row; its second component is the row's target value
  and its first component holds, column by column, the row's values of the
  remaining columns: one less than the frame had, 13 for the notebook's 14.
  Whatever order \<open>shuffle\<close> picks, every batch given to \<open>model.fit\<close> is one such
  element: the features of a row with the target of the same row.
\<close>

theorem tabular_dataset_separates_target:
  assumes wf: "wf_dataframe df" and tgt: "''target'' \<in> set (columns df)"
  shows "\<exists>target df' dataset.
      df_pop ''target'' df = Inr (target, df')
    \<and> ''target'' \<notin> set (columns df')
    \<and> set (columns df') = set (columns df) - {''target''}
    \<and> tabular_dataset df = Inr dataset
    \<and> length dataset = length (rows df)
    \<and> (\<forall>i < length (rows df).
          snd (dataset ! i) = rows df ! i ! column_index ''target'' (columns df)
        \<and> length (fst (dataset ! i)) = length (columns df) - 1
        \<and> (length (columns df) = 14 \<longrightarrow> length (fst (dataset ! i)) = 13)
        \<and> (\<forall>c \<in> set (columns df').
              fst (dataset ! i) ! column_index c (columns df')
                = rows df ! i ! column_index c (columns df)))
    \<and> (\<forall>shuffle. mset (shuffle 10000 dataset) = mset dataset \<longrightarrow>
          (\<exists>batches. train_dataset shuffle df = Inr batches
             \<and> length batches = length (rows df)
             \<and> (\<forall>b \<in> set batches. \<exists>i < length (rows df).
                    b = ([fst (dataset ! i)], [snd (dataset ! i)]))))"
proof -
  define cols where "cols = columns df"
  define t where "t = column_index ''target'' cols"
  define target where "target = map (\<lambda>r. r ! t) (rows df)"
  define df' :: "'a dataframe" where
    "df' = \<lparr>columns = remove_nth t cols, rows = map (remove_nth t) (rows df)\<rparr>"
  define dataset where "dataset = zip (rows df') target"
  have d: "distinct cols" and rl: "\<forall>r \<in> set (rows df). length r = length cols"
    using wf by (auto simp: wf_dataframe_def cols_def list_all_iff)
  have t: "t < length cols" and ct: "cols ! t = ''target''"
    using tgt column_index_less [of "''target''" cols] column_index_nth [of "''target''" cols]
    by (simp_all add: t_def cols_def)
  have pop: "df_pop ''target'' df = Inr (target, df')"
    using tgt by (simp add: df_pop_def Let_def target_def df'_def t_def cols_def)
  have cs: "set (columns df') = set (columns df) - {''target''}"
    using set_remove_nth [OF d t] ct by (simp add: df'_def cols_def)
  then have nt: "''target'' \<notin> set (columns df')" by simp
  have ds: "tabular_dataset df = Inr dataset"
    by (simp add: tabular_dataset_def pop from_tensor_slices_def df_values_def dataset_def
        df'_def target_def)
  have len: "length dataset = length (rows df)"
    by (simp add: dataset_def df'_def target_def)
  have el: "dataset ! i = (remove_nth t (rows df ! i), rows df ! i ! t)"
    if "i < length (rows df)" for i
    using that by (simp add: dataset_def df'_def target_def)
  have rows: "snd (dataset ! i) = rows df ! i ! column_index ''target'' (columns df)
        \<and> length (fst (dataset ! i)) = length (columns df) - 1
        \<and> (length (columns df) = 14 \<longrightarrow> length (fst (dataset ! i)) = 13)
        \<and> (\<forall>c \<in> set (columns df').
              fst (dataset ! i) ! column_index c (columns df')
                = rows df ! i ! column_index c (columns df))"
    if i: "i < length (rows df)" for i
  proof -
    have r: "length (rows df ! i) = length cols" using rl i by simp
    have 1: "snd (dataset ! i) = rows df ! i ! column_index ''target'' (columns df)"
      by (simp add: el [OF i] t_def cols_def)
    have 2: "length (fst (dataset ! i)) = length (columns df) - 1"
      using length_remove_nth [of t "rows df ! i"] t r by (simp add: el [OF i] cols_def)
    have 3: "\<forall>c \<in> set (columns df').
              fst (dataset ! i) ! column_index c (columns df')
                = rows df ! i ! column_index c (columns df)"
    proof
      fix c assume "c \<in> set (columns df')"
      then have "c \<in> set (remove_nth t cols)" by (simp add: df'_def)
      from remaining_column [OF d t r this]
      show "fst (dataset ! i) ! column_index c (columns df')
                = rows df ! i ! column_index c (columns df)"
        by (simp add: el [OF i] df'_def cols_def)
    qed
    from 1 2 3 show ?thesis by simp
  qed
  have sh: "\<exists>batches. train_dataset shuffle df = Inr batches
             \<and> length batches = length (rows df)
             \<and> (\<forall>b \<in> set batches. \<exists>i < length (rows df).
                    b = ([fst (dataset ! i)], [snd (dataset ! i)]))"
    if m: "mset (shuffle 10000 dataset) = mset dataset"
    for shuffle :: "nat \<Rightarrow> ('a list \<times> 'a) list \<Rightarrow> ('a list \<times> 'a) list"
  proof -
    define batches where
      "batches = map unzip_batch (map (\<lambda>x. [x]) (shuffle 10000 dataset))"
    have tr: "train_dataset shuffle df = Inr batches"
      using batch_ds_one [of "shuffle 10000 dataset"]
      by (simp add: train_dataset_def ds batch_def batches_def)
    have "length (shuffle 10000 dataset) = length dataset"
      using m by (rule mset_eq_length)
    then have bl: "length batches = length (rows df)"
      by (simp add: batches_def len)
    have "\<exists>i < length (rows df). b = ([fst (dataset ! i)], [snd (dataset ! i)])"
      if "b \<in> set batches" for b
    proof -
      from that obtain x where x: "x \<in> set (shuffle 10000 dataset)" and b: "b = unzip_batch [x]"
        by (auto simp: batches_def)
      from x m have "x \<in> set dataset" by (metis set_mset_mset)
      then obtain i where "i < length dataset" "dataset ! i = x"
        by (auto simp: in_set_conv_nth)
      then show ?thesis using b len by (auto simp: unzip_batch_def)
    qed
    with tr bl show ?thesis by blast
  qed
  from pop nt cs ds len rows sh show ?thesis by blast
qed

text \<open>The head of the notebook's frame, shuffled by reversal.\<close>

theorem tabular_dataset_separates_target_witness:
  "wf_dataframe heart_head
   \<and> ''target'' \<in> set (columns heart_head)
   \<and> (\<exists>dataset. tabular_dataset heart_head = Inr dataset
         \<and> length dataset = 2
         \<and> length (fst (dataset ! 0)) = 13
         \<and> snd (dataset ! 0) = 0
         \<and> snd (dataset ! 1) = 1
         \<and> (\<exists>batches. train_dataset (\<lambda>buffer_size. rev) heart_head = Inr batches
               \<and> length batches = 2))"
proof -
  have wf: "wf_dataframe heart_head"
    by (simp add: wf_dataframe_def heart_head_def)
  have tgt: "''target'' \<in> set (columns heart_head)"
    by (simp add: heart_head_def)
  have l: "length (rows heart_head) = 2" "length (columns heart_head) = 14"
    by (simp_all add: heart_head_def)
  have ix: "column_index ''target'' (columns heart_head) = 13"
    by (simp add: heart_head_def column_index_def)
  have r: "rows heart_head ! 0 ! 13 = 0" "rows heart_head ! Suc 0 ! 13 = 1"
    by (simp_all add: heart_head_def)
  from tabular_dataset_separates_target [OF wf tgt]
  show ?thesis
  proof (elim exE conjE)
    fix target :: "int list" and df' :: "int dataframe" and dataset :: "(int list \<times> int) list"
    assume ds: "tabular_dataset heart_head = Inr dataset"
      and len: "length dataset = length (rows heart_head)"
      and el: "\<forall>i < length (rows heart_head).
          snd (dataset ! i) = rows heart_head ! i ! column_index ''target'' (columns heart_head)
        \<and> length (fst (dataset ! i)) = length (columns heart_head) - 1
        \<and> (length (columns heart_head) = 14 \<longrightarrow> length (fst (dataset ! i)) = 13)
        \<and> (\<forall>c \<in> set (columns df').
              fst (dataset ! i) ! column_index c (columns df')
                = rows heart_head ! i ! column_index c (columns heart_head))"
      and sh: "\<forall>shuffle. mset (shuffle 10000 dataset) = mset dataset \<longrightarrow>
          (\<exists>batches. train_dataset shuffle heart_head = Inr batches
             \<and> length batches = length (rows heart_head)
             \<and> (\<forall>b \<in> set batches. \<exists>i < length (rows heart_head).
                    b = ([fst (dataset ! i)], [snd (dataset ! i)])))"
    have i0: "0 < length (rows heart_head)" and i1: "1 < length (rows heart_head)"
      using l by simp_all
    from el i0 have e0: "snd (dataset ! 0) = 0" "length (fst (dataset ! 0)) = 13"
      using l by (simp_all add: ix r)
    from el i1 have e1: "snd (dataset ! 1) = 1"
      by (simp add: ix r)
    have m: "mset ((\<lambda>buffer_size. rev) (10000::nat) dataset) = mset dataset" by simp
    from sh have "mset ((\<lambda>buffer_size. rev) (10000::nat) dataset) = mset dataset \<longrightarrow>
          (\<exists>batches. train_dataset (\<lambda>buffer_size. rev) heart_head = Inr batches
             \<and> length batches = length (rows heart_head)
             \<and> (\<forall>b \<in> set batches. \<exists>i < length (rows heart_head).
                    b = ([fst (dataset ! i)], [snd (dataset ! i)])))"
      by (rule spec)
    with m obtain batches where b: "train_dataset (\<lambda>buffer_size. rev) heart_head = Inr batches"
      "length batches = length (rows heart_head)"
      by (elim impE exE conjE)
    have inner: "\<exists>batches. train_dataset (\<lambda>buffer_size. rev) heart_head = Inr batches
               \<and> length batches = 2"
      using b l by simp
    show ?thesis
      using wf tgt ds len e0 e1 l inner by simp
  qed
qed

subsection \<open>Sharding into TFRecord files\<close>

lemma digit_char_inj: "a < 10 \<Longrightarrow> b < 10 \<Longrightarrow> digit_char a = digit_char b \<Longrightarrow> a = b"
proof -
  assume a: "a < 10" and b: "b < 10" and e: "digit_char a = digit_char b"
  from e have "of_char (digit_char a) = (of_char (digit_char b) :: nat)" by simp
  then have "(48 + a) mod 256 = (48 + b) mod 256"
    by (simp add: digit_char_def)
  with a b show "a = b" by simp
qed

lemma str_nat_small: "n < 10 \<Longrightarrow> str_nat n = [digit_char n]"
  by (simp add: str_nat.simps)

lemma str_nat_big: "\<not> n < 10 \<Longrightarrow> str_nat n = str_nat (n div 10) @ [digit_char (n mod 10)]"
  by (subst str_nat.simps) simp

lemma str_nat_nonempty: "str_nat n \<noteq> []"
  by (subst str_nat.simps) simp

lemma str_nat_inj: "str_nat a = str_nat b \<Longrightarrow> a = b"
proof (induction a arbitrary: b rule: str_nat.induct)
  case (1 a)
  show ?case
  proof (cases "a < 10")
    case True
    show ?thesis
    proof (cases "b < 10")
      case b: True
      with True "1.prems" show ?thesis
        by (simp add: str_nat_small digit_char_inj)
    next
      case False
      with True "1.prems" str_nat_nonempty [of "b div 10"] show ?thesis
        by (simp add: str_nat_small str_nat_big)
    qed
  next
    case False
    show ?thesis
    proof (cases "b < 10")
      case True
      with False "1.prems" str_nat_nonempty [of "a div 10"] show ?thesis
        by (simp add: str_nat_small str_nat_big)
    next
      case b: False
      from False b "1.prems" have e: "str_nat (a div 10) = str_nat (b div 10)"
        and d: "digit_char (a mod 10) = digit_char (b mod 10)"
        by (simp_all add: str_nat_big)
      from "1.IH" [OF False e] have q: "a div 10 = b div 10" .
      from d have r: "a mod 10 = b mod 10" by (rule digit_char_inj [rotated 2]) simp_all
      from q r show ?thesis by (metis div_mult_mod_eq)
    qed
  qed
qed

lemma output_file_inj: "inj output_file"
  by (rule injI) (simp add: output_file_def str_nat_inj)

lemma fold_map_upd:
  "inj f \<Longrightarrow>
   fold (\<lambda>i m. m(f i \<mapsto> g i)) [0..<n] m k
     = (if k \<in> f ` {0..<n} then Some (g (inv f k)) else m k)"
proof (induction n)
  case 0
  then show ?case by simp
next
  case (Suc n)
  then show ?case by (auto simp: inv_f_f atLeast0_lessThan_Suc)
qed

lemma shard_ds_indices:
  "shard_ds n i [0..<N] = filter (\<lambda>j. j mod n = i) [0..<N]"
proof -
  have "map (\<lambda>j. [0..<N] ! j) (filter (\<lambda>j. j mod n = i) [0..<N])
        = map (\<lambda>j. j) (filter (\<lambda>j. j mod n = i) [0..<N])"
    by (rule map_cong) auto
  then show ?thesis by (simp add: shard_ds_def)
qed

lemma shard_ds_by_index:
  "shard_ds n i xs = map (\<lambda>j. xs ! j) (shard_ds n i [0..<length xs])"
  by (simp add: shard_ds_indices) (simp add: shard_ds_def)

lemma shard_ds_subset: "set (shard_ds n i xs) \<subseteq> set xs"
  by (auto simp: shard_ds_def)

lemma shard_ds_member:
  assumes "0 < n" "j < length xs"
  shows "xs ! j \<in> set (shard_ds n (j mod n) xs)"
  using assms by (auto simp: shard_ds_def)

lemma record_of_Inr_iff:
  "record_of rf dj rs ej ser x = Inr a \<longleftrightarrow> is_record_of rf dj rs ej ser x a"
  by (cases x)
     (auto simp: record_of_def is_record_of_def get_bytes_label_tfrecord_def
        process_image_tfrecord_write_def tf_serialize_example_def serialize_example_def
        int64_feature_def bytes_feature_def Let_def
        split: sum.splits)

lemma batch_is_record_of:
  "map (\<lambda>x. case x of
             Inl e \<Rightarrow> Inl e
           | Inr x \<Rightarrow> tf_serialize_example ser (fst x) (snd x))
       (build_dataset_tfrecord rf dj rs ej xs)
   = map (record_of rf dj rs ej ser) xs"
  by (simp add: build_dataset_tfrecord_def record_of_def Let_def comp_def case_prod_beta)

lemma write_records_ok: "write_records (map Inr as) written = (written @ as, None)"
  by (induction as arbitrary: written) auto

lemma write_records_raises:
  "Inl e \<in> set elems \<Longrightarrow> snd (write_records elems written) \<noteq> None"
proof (induction elems arbitrary: written)
  case Nil
  then show ?case by simp
next
  case (Cons r elems)
  then show ?case by (cases r) auto
qed

lemma shard_loop_ok:
  assumes "\<forall>i \<in> set is. \<forall>fs. body i fs = (fs(f i \<mapsto> g i), None)"
  shows "shard_loop body is fs = (fold (\<lambda>i m. m(f i \<mapsto> g i)) is fs, None)"
  using assms by (induction "is" arbitrary: fs) auto

lemma shard_loop_raises:
  assumes "i \<in> set is" and "\<forall>fs. snd (body i fs) \<noteq> None"
  shows "snd (shard_loop body is fs) \<noteq> None"
  using assms
proof (induction "is" arbitrary: fs)
  case Nil
  then show ?case by simp
next
  case (Cons a "is")
  obtain fs' r where b: "body a fs = (fs', r)" by (cases "body a fs")
  show ?case
  proof (cases r)
    case None
    with Cons.prems b have "a \<noteq> i" by (metis snd_conv)
    with Cons.prems have "i \<in> set is" by simp
    from Cons.IH [OF this Cons.prems(2)] b None show ?thesis by simp
  next
    case (Some e)
    with b show ?thesis by simp
  qed
qed

lemma write_shard_unfold:
  "write_shard rf dj rs ej ser ds n i fs
   = (fs(output_file i \<mapsto> fst (write_records (map (record_of rf dj rs ej ser)
                                                   (shard_ds n i ds)) [])),
      snd (write_records (map (record_of rf dj rs ej ser) (shard_ds n i ds)) []))"
  by (simp add: write_shard_def batch_is_record_of Let_def case_prod_beta)

lemma write_shard_ok:
  assumes "\<forall>x \<in> set (shard_ds n i ds). \<exists>a. is_record_of rf dj rs ej ser x a"
  shows "write_shard rf dj rs ej ser ds n i fs
         = (fs(output_file i \<mapsto>
                 map (\<lambda>x. projr (record_of rf dj rs ej ser x)) (shard_ds n i ds)),
            None)"
proof -
  have "map (record_of rf dj rs ej ser) (shard_ds n i ds)
        = map Inr (map (\<lambda>x. projr (record_of rf dj rs ej ser x)) (shard_ds n i ds))"
  proof (simp, rule ballI)
    fix x assume "x \<in> set (shard_ds n i ds)"
    with assms obtain a where "is_record_of rf dj rs ej ser x a" by blast
    then have "record_of rf dj rs ej ser x = Inr a" by (simp add: record_of_Inr_iff)
    then show "record_of rf dj rs ej ser x = Inr (projr (record_of rf dj rs ej ser x))"
      by simp
  qed
  then show ?thesis
    unfolding write_shard_unfold by (simp only: write_records_ok) simp
qed

lemma write_shard_raises:
  assumes x: "x \<in> set (shard_ds n i ds)" and bad: "\<nexists>a. is_record_of rf dj rs ej ser x a"
  shows "snd (write_shard rf dj rs ej ser ds n i fs) \<noteq> None"
proof -
  from bad have "\<nexists>a. record_of rf dj rs ej ser x = Inr a"
    by (simp add: record_of_Inr_iff)
  then obtain e where "record_of rf dj rs ej ser x = Inl e"
    by (cases "record_of rf dj rs ej ser x") auto
  with x have "Inl e \<in> set (map (record_of rf dj rs ej ser) (shard_ds n i ds))"
    by force
  from write_records_raises [OF this, of "[]"] show ?thesis
    unfolding write_shard_unfold by simp
qed

lemma create_tfrecord_ok:
  assumes ok: "\<forall>x \<in> set ds. \<exists>a. is_record_of rf dj rs ej ser x a"
  shows "snd (create_tfrecord rf dj rs ej ser ds n fs) = None"
    and "fst (create_tfrecord rf dj rs ej ser ds n fs) k
         = (if k \<in> output_file ` {0..<n}
            then Some (map (\<lambda>x. projr (record_of rf dj rs ej ser x))
                         (shard_ds n (inv output_file k) ds))
            else fs k)"
proof -
  have step: "\<forall>i \<in> set [0..<n]. \<forall>fs.
      write_shard rf dj rs ej ser ds n i fs
      = (fs(output_file i \<mapsto>
              map (\<lambda>x. projr (record_of rf dj rs ej ser x)) (shard_ds n i ds)),
         None)"
  proof (intro ballI allI)
    fix i fs
    have "\<forall>x \<in> set (shard_ds n i ds). \<exists>a. is_record_of rf dj rs ej ser x a"
      using ok shard_ds_subset [of n i ds] by blast
    then show "write_shard rf dj rs ej ser ds n i fs
      = (fs(output_file i \<mapsto>
              map (\<lambda>x. projr (record_of rf dj rs ej ser x)) (shard_ds n i ds)),
         None)"
      by (rule write_shard_ok)
  qed
  have all: "create_tfrecord rf dj rs ej ser ds n fs
        = (fold (\<lambda>i m. m(output_file i \<mapsto>
                   map (\<lambda>x. projr (record_of rf dj rs ej ser x)) (shard_ds n i ds)))
             [0..<n] fs, None)"
    unfolding create_tfrecord_def by (rule shard_loop_ok [OF step])
  show "snd (create_tfrecord rf dj rs ej ser ds n fs) = None"
    by (simp add: all)
  show "fst (create_tfrecord rf dj rs ej ser ds n fs) k
         = (if k \<in> output_file ` {0..<n}
            then Some (map (\<lambda>x. projr (record_of rf dj rs ej ser x))
                         (shard_ds n (inv output_file k) ds))
            else fs k)"
    using fold_map_upd [OF output_file_inj,
        of "\<lambda>i. map (\<lambda>x. projr (record_of rf dj rs ej ser x)) (shard_ds n i ds)" n fs k]
    by (simp add: all)
qed

text \<open>
  Claim C4, amended.  Take at least one shard.  If for every element of the input
  the file is read, decoded, resized and encoded without an exception and the label
  fits \<open>Int64List\<close>, then \<open>create_tfrecord\<close> raises nothing, writes the \<open>n_shards\<close>
  files \<open>output_file 0 .. output_file (n_shards - 1)\<close>, whose names are pairwise
  different, and leaves every other file alone.  File \<open>i\<close> holds, in order, the
  serialized examples (image bytes in a \<open>BytesList\<close>, label in an \<open>Int64List\<close>) of
  the input elements at the positions of shard \<open>i\<close>; no position occurs twice in a
  shard and every position of the input lies in exactly one shard.  If some element
  of the input has no such record, \<open>create_tfrecord\<close> raises.
\<close>

theorem create_tfrecord_partition:
  assumes n: "1 \<le> n_shards"
  shows "((\<forall>x \<in> set ds. \<exists>a. is_record_of rf dj rs ej ser x a) \<longrightarrow>
            snd (create_tfrecord rf dj rs ej ser ds n_shards fs) = None
          \<and> dom (fst (create_tfrecord rf dj rs ej ser ds n_shards fs))
              = dom fs \<union> output_file ` {0..<n_shards}
          \<and> card (output_file ` {0..<n_shards}) = n_shards
          \<and> (\<forall>k. k \<notin> output_file ` {0..<n_shards} \<longrightarrow>
                fst (create_tfrecord rf dj rs ej ser ds n_shards fs) k = fs k)
          \<and> (\<forall>i < n_shards. \<exists>recs.
                fst (create_tfrecord rf dj rs ej ser ds n_shards fs) (output_file i) = Some recs
              \<and> list_all2 (is_record_of rf dj rs ej ser) (shard_ds n_shards i ds) recs
              \<and> shard_ds n_shards i ds
                  = map (\<lambda>j. ds ! j) (shard_ds n_shards i [0..<length ds])
              \<and> distinct (shard_ds n_shards i [0..<length ds]))
          \<and> (\<forall>j < length ds.
                \<exists>!i. i < n_shards \<and> j \<in> set (shard_ds n_shards i [0..<length ds])))
       \<and> ((\<exists>x \<in> set ds. \<nexists>a. is_record_of rf dj rs ej ser x a) \<longrightarrow>
            snd (create_tfrecord rf dj rs ej ser ds n_shards fs) \<noteq> None)"
proof (intro conjI impI)
  assume ok: "\<forall>x \<in> set ds. \<exists>a. is_record_of rf dj rs ej ser x a"
  note look = create_tfrecord_ok(2) [OF ok, of n_shards fs]
  show "snd (create_tfrecord rf dj rs ej ser ds n_shards fs) = None"
    by (rule create_tfrecord_ok(1) [OF ok])
  show "dom (fst (create_tfrecord rf dj rs ej ser ds n_shards fs))
              = dom fs \<union> output_file ` {0..<n_shards}"
    by (auto simp: dom_def look)
  show "card (output_file ` {0..<n_shards}) = n_shards"
    by (simp add: card_image inj_on_subset [OF output_file_inj])
  show "\<forall>k. k \<notin> output_file ` {0..<n_shards} \<longrightarrow>
                fst (create_tfrecord rf dj rs ej ser ds n_shards fs) k = fs k"
    by (simp add: look)
  show "\<forall>i < n_shards. \<exists>recs.
                fst (create_tfrecord rf dj rs ej ser ds n_shards fs) (output_file i) = Some recs
              \<and> list_all2 (is_record_of rf dj rs ej ser) (shard_ds n_shards i ds) recs
              \<and> shard_ds n_shards i ds
                  = map (\<lambda>j. ds ! j) (shard_ds n_shards i [0..<length ds])
              \<and> distinct (shard_ds n_shards i [0..<length ds])"
  proof (intro allI impI)
    fix i assume i: "i < n_shards"
    define recs where
      "recs = map (\<lambda>x. projr (record_of rf dj rs ej ser x)) (shard_ds n_shards i ds)"
    have fl: "fst (create_tfrecord rf dj rs ej ser ds n_shards fs) (output_file i) = Some recs"
      using i by (simp add: look inv_f_f [OF output_file_inj] recs_def)
    have each: "is_record_of rf dj rs ej ser x (projr (record_of rf dj rs ej ser x))"
      if "x \<in> set (shard_ds n_shards i ds)" for x
    proof -
      from that ok shard_ds_subset [of n_shards i ds]
      obtain a where a: "is_record_of rf dj rs ej ser x a" by blast
      then have "record_of rf dj rs ej ser x = Inr a" by (simp add: record_of_Inr_iff)
      with a show ?thesis by simp
    qed
    have rel: "list_all2 (is_record_of rf dj rs ej ser) (shard_ds n_shards i ds) recs"
      unfolding recs_def list.rel_map using each by (simp add: list_all2_same)
    have idx: "shard_ds n_shards i ds = map (\<lambda>j. ds ! j) (shard_ds n_shards i [0..<length ds])"
      by (rule shard_ds_by_index)
    have dis: "distinct (shard_ds n_shards i [0..<length ds])"
      by (simp add: shard_ds_indices)
    from fl rel idx dis
    show "\<exists>recs.
                fst (create_tfrecord rf dj rs ej ser ds n_shards fs) (output_file i) = Some recs
              \<and> list_all2 (is_record_of rf dj rs ej ser) (shard_ds n_shards i ds) recs
              \<and> shard_ds n_shards i ds
                  = map (\<lambda>j. ds ! j) (shard_ds n_shards i [0..<length ds])
              \<and> distinct (shard_ds n_shards i [0..<length ds])"
      by blast
  qed
  show "\<forall>j < length ds.
                \<exists>!i. i < n_shards \<and> j \<in> set (shard_ds n_shards i [0..<length ds])"
    using n by (auto simp: shard_ds_indices)
next
  assume "\<exists>x \<in> set ds. \<nexists>a. is_record_of rf dj rs ej ser x a"
  then obtain x where x: "x \<in> set ds" and bad: "\<nexists>a. is_record_of rf dj rs ej ser x a"
    by blast
  from x obtain j where j: "j < length ds" "ds ! j = x" by (auto simp: in_set_conv_nth)
  have pos: "0 < n_shards" using n by simp
  have mem: "x \<in> set (shard_ds n_shards (j mod n_shards) ds)"
    using shard_ds_member [OF pos j(1)] j(2) by simp
  have "\<forall>fs. snd (write_shard rf dj rs ej ser ds n_shards (j mod n_shards) fs) \<noteq> None"
    using write_shard_raises [OF mem bad] by blast
  moreover have "j mod n_shards \<in> set [0..<n_shards]" using pos by simp
  ultimately show "snd (create_tfrecord rf dj rs ej ser ds n_shards fs) \<noteq> None"
    unfolding create_tfrecord_def by (rule shard_loop_raises [rotated])
qed

text \<open>Three images in two shards, with stand-ins for the codec that return their
  argument; then the same with the second file missing.\<close>

theorem create_tfrecord_partition_witness:
  "(1::nat) \<le> 2
   \<and> list_all (\<lambda>x. \<exists>a. is_record_of (\<lambda>p::string. Inr p) (\<lambda>(b::string) c. Inr b)
                          (\<lambda>(i::string) s. Inr i) (\<lambda>i. Inr i)
                          (\<lambda>e::(string, unit) example. e) x a)
        [(''a.jpg'', [1, 0]), (''b.jpg'', [0, 1]), (''c.jpg'', [1, 0])]
   \<and> snd (create_tfrecord (\<lambda>p::string. Inr p) (\<lambda>(b::string) c. Inr b)
             (\<lambda>(i::string) s. Inr i) (\<lambda>i. Inr i) (\<lambda>e::(string, unit) example. e)
             [(''a.jpg'', [1, 0]), (''b.jpg'', [0, 1]), (''c.jpg'', [1, 0])] 2 Map.empty)
       = None
   \<and> card (output_file ` {0..<2}) = 2
   \<and> fst (create_tfrecord (\<lambda>p::string. Inr p) (\<lambda>(b::string) c. Inr b)
             (\<lambda>(i::string) s. Inr i) (\<lambda>i. Inr i) (\<lambda>e::(string, unit) example. e)
             [(''a.jpg'', [1, 0]), (''b.jpg'', [0, 1]), (''c.jpg'', [1, 0])] 2 Map.empty)
         ''output_file-part-0.tfrecord''
       = Some [[(''image'', BytesList [''a.jpg'']), (''label'', Int64List [1, 0])],
               [(''image'', BytesList [''c.jpg'']), (''label'', Int64List [1, 0])]]
   \<and> fst (create_tfrecord (\<lambda>p::string. Inr p) (\<lambda>(b::string) c. Inr b)
             (\<lambda>(i::string) s. Inr i) (\<lambda>i. Inr i) (\<lambda>e::(string, unit) example. e)
             [(''a.jpg'', [1, 0]), (''b.jpg'', [0, 1]), (''c.jpg'', [1, 0])] 2 Map.empty)
         ''output_file-part-1.tfrecord''
       = Some [[(''image'', BytesList [''b.jpg'']), (''label'', Int64List [0, 1])]]
   \<and> snd (create_tfrecord
             (\<lambda>p::string. if p = ''b.jpg'' then Inl NotFoundError else Inr p)
             (\<lambda>(b::string) c. Inr b) (\<lambda>(i::string) s. Inr i) (\<lambda>i. Inr i)
             (\<lambda>e::(string, unit) example. e)
             [(''a.jpg'', [1, 0]), (''b.jpg'', [0, 1]), (''c.jpg'', [1, 0])] 2 Map.empty)
       \<noteq> None"
proof -
  let ?rf = "\<lambda>p::string. (Inr p :: error + string)"
  let ?rf' = "\<lambda>p::string. if p = ''b.jpg'' then Inl NotFoundError else (Inr p :: error + string)"
  let ?dj = "\<lambda>(b::string) (c::nat). (Inr b :: error + string)"
  let ?rs = "\<lambda>(i::string) (s::nat \<times> nat). (Inr i :: error + string)"
  let ?ej = "\<lambda>i::string. (Inr i :: error + string)"
  let ?ser = "\<lambda>e::(string, unit) example. e"
  let ?ds = "[(''a.jpg'', [1, 0]), (''b.jpg'', [0, 1]), (''c.jpg'', [1::int, 0])]"
  have n: "(1::nat) \<le> 2" by simp
  have f0: "output_file 0 = ''output_file-part-0.tfrecord''"
    by code_simp
  have f1: "output_file 1 = ''output_file-part-1.tfrecord''"
    by code_simp
  have s0: "shard_ds 2 0 ?ds = [(''a.jpg'', [1, 0]), (''c.jpg'', [1, 0])]"
    by (simp add: shard_ds_def upt_conv_Cons)
  have s1: "shard_ds 2 (Suc 0) ?ds = [(''b.jpg'', [0, 1])]"
    by (simp add: shard_ds_def upt_conv_Cons)
  have ok: "\<forall>x \<in> set ?ds. \<exists>a. is_record_of ?rf ?dj ?rs ?ej ?ser x a"
    by (simp add: is_record_of_def in_int64_range_def)
  have bad: "\<exists>x \<in> set ?ds. \<nexists>a. is_record_of ?rf' ?dj ?rs ?ej ?ser x a"
    by (simp add: is_record_of_def)
  note t = create_tfrecord_partition
    [where n_shards = 2 and rf = ?rf and dj = ?dj and rs = ?rs and ej = ?ej and ser = ?ser
       and ds = ?ds and fs = Map.empty, OF n]
  note t' = create_tfrecord_partition
    [where n_shards = 2 and rf = ?rf' and dj = ?dj and rs = ?rs and ej = ?ej and ser = ?ser
       and ds = ?ds and fs = Map.empty, OF n]
  from t ok have r: "snd (create_tfrecord ?rf ?dj ?rs ?ej ?ser ?ds 2 Map.empty) = None"
    and c: "card (output_file ` {0..<2}) = 2"
    and a: "\<forall>i < 2. \<exists>recs.
          fst (create_tfrecord ?rf ?dj ?rs ?ej ?ser ?ds 2 Map.empty) (output_file i) = Some recs
        \<and> list_all2 (is_record_of ?rf ?dj ?rs ?ej ?ser) (shard_ds 2 i ?ds) recs
        \<and> shard_ds 2 i ?ds = map (\<lambda>j. ?ds ! j) (shard_ds 2 i [0..<length ?ds])
        \<and> distinct (shard_ds 2 i [0..<length ?ds])"
    by blast+
  have z: "(0::nat) < 2" and o: "Suc 0 < 2" by simp_all
  from a [rule_format, OF z] obtain recs0 where
    g0: "fst (create_tfrecord ?rf ?dj ?rs ?ej ?ser ?ds 2 Map.empty) (output_file 0)
           = Some recs0"
    and l0: "list_all2 (is_record_of ?rf ?dj ?rs ?ej ?ser) (shard_ds 2 0 ?ds) recs0"
    by (elim exE conjE)
  from l0 have "recs0 = [[(''image'', BytesList [''a.jpg'']), (''label'', Int64List [1, 0])],
                         [(''image'', BytesList [''c.jpg'']), (''label'', Int64List [1, 0])]]"
    unfolding s0 by (auto simp: list_all2_Cons1 is_record_of_def)
  with g0 have 0: "fst (create_tfrecord ?rf ?dj ?rs ?ej ?ser ?ds 2 Map.empty)
                  ''output_file-part-0.tfrecord''
       = Some [[(''image'', BytesList [''a.jpg'']), (''label'', Int64List [1, 0])],
               [(''image'', BytesList [''c.jpg'']), (''label'', Int64List [1, 0])]]"
    by (simp add: f0)
  from a [rule_format, OF o] obtain recs1 where
    g1: "fst (create_tfrecord ?rf ?dj ?rs ?ej ?ser ?ds 2 Map.empty) (output_file (Suc 0))
           = Some recs1"
    and l1: "list_all2 (is_record_of ?rf ?dj ?rs ?ej ?ser) (shard_ds 2 (Suc 0) ?ds) recs1"
    by (elim exE conjE)
  from l1 have "recs1 = [[(''image'', BytesList [''b.jpg'']), (''label'', Int64List [0, 1])]]"
    unfolding s1 by (auto simp: list_all2_Cons1 is_record_of_def)
  with g1 f1 have 1: "fst (create_tfrecord ?rf ?dj ?rs ?ej ?ser ?ds 2 Map.empty)
                  ''output_file-part-1.tfrecord''
       = Some [[(''image'', BytesList [''b.jpg'']), (''label'', Int64List [0, 1])]]"
    by simp
  from t' bad have x: "snd (create_tfrecord ?rf' ?dj ?rs ?ej ?ser ?ds 2 Map.empty) \<noteq> None"
    by blast
  from ok have okl: "list_all (\<lambda>x. \<exists>a. is_record_of ?rf ?dj ?rs ?ej ?ser x a) ?ds"
    by (simp only: list_all_iff)
  from n okl r c 0 1 x show ?thesis by (intro conjI)
qed

text \<open>
  Claim C4 as stated speaks of every input dataset.  With two shards and a first
  element whose file is missing, reading it raises in the first round of the loop:
  the second file is never written and the second element is serialized nowhere.
\<close>

theorem create_tfrecord_missing_file_counterexample:
  "(1::nat) \<le> 2
   \<and> snd (create_tfrecord
             (\<lambda>p::string. if p = ''missing.jpg'' then Inl NotFoundError else Inr p)
             (\<lambda>(b::string) c. Inr b) (\<lambda>(i::string) s. Inr i) (\<lambda>i. Inr i)
             (\<lambda>e::(string, unit) example. e)
             [(''missing.jpg'', [1, 0]), (''b.jpg'', [0, 1])] 2 Map.empty)
       = Some NotFoundError
   \<and> fst (create_tfrecord
             (\<lambda>p::string. if p = ''missing.jpg'' then Inl NotFoundError else Inr p)
             (\<lambda>(b::string) c. Inr b) (\<lambda>(i::string) s. Inr i) (\<lambda>i. Inr i)
             (\<lambda>e::(string, unit) example. e)
             [(''missing.jpg'', [1, 0]), (''b.jpg'', [0, 1])] 2 Map.empty)
         ''output_file-part-1.tfrecord''
       = None"
proof -
  have f0: "output_file 0 = ''output_file-part-0.tfrecord''"
    by code_simp
  show ?thesis
    by (simp add: create_tfrecord_def upt_conv_Cons write_shard_def shard_ds_def
        build_dataset_tfrecord_def get_bytes_label_tfrecord_def f0)
qed

subsection \<open>Batching before or after repeating\<close>

lemma length_batch_ds: "length (batch_ds bs xs) = (length xs + bs - 1) div bs"
  by (simp add: batch_ds_def)

lemma length_repeat_ds: "length (repeat_ds xs k) = (if xs = [] then 0 else k)"
  by (simp add: repeat_ds_def)

lemma repeat_ds_map: "repeat_ds (map f xs) k = map f (repeat_ds xs k)"
  by (simp add: repeat_ds_def)

lemma batch_ds_map: "batch_ds bs (map f xs) = map (map f) (batch_ds bs xs)"
  by (simp add: batch_ds_def take_map drop_map)

lemma batch_ds_subset: "b \<in> set (batch_ds bs xs) \<Longrightarrow> set b \<subseteq> set xs"
proof -
  assume "b \<in> set (batch_ds bs xs)"
  then obtain i where "b = take bs (drop (i * bs) xs)"
    by (auto simp: batch_ds_def)
  then show ?thesis
    by (metis set_take_subset set_drop_subset subset_trans)
qed

lemma take_drop_nth:
  "a + n \<le> length xs \<Longrightarrow> take n (drop a xs) = map (\<lambda>j. xs ! (a + j)) [0..<n]"
  by (rule nth_equalityI) simp_all

lemma mod_block:
  fixes i j m bs :: nat
  assumes "j < bs"
  shows "(i * bs + j) mod (m * bs) = (i mod m) * bs + j"
proof (cases "m = 0")
  case True
  then show ?thesis by simp
next
  case False
  have lt: "(i mod m) * bs + j < m * bs"
  proof -
    have "i mod m < m" using False by simp
    then have "Suc (i mod m) \<le> m" by simp
    then have "Suc (i mod m) * bs \<le> m * bs" by (rule mult_le_mono1)
    with assms show ?thesis by simp
  qed
  have "i * bs + j = (i div m) * (m * bs) + ((i mod m) * bs + j)"
  proof -
    have "i * bs = ((i div m) * m + i mod m) * bs" by simp
    also have "\<dots> = (i div m) * (m * bs) + (i mod m) * bs"
      by (simp only: add_mult_distrib mult.assoc)
    finally show ?thesis by simp
  qed
  then have "(i * bs + j) mod (m * bs) = ((i mod m) * bs + j) mod (m * bs)"
    by (metis mod_mult_self3)
  with lt show ?thesis by simp
qed

lemma ceil_blocks:
  fixes bs m :: nat
  assumes "0 < bs"
  shows "(m * bs + bs - 1) div bs = m"
proof -
  from assms have "m * bs + bs - 1 = (bs - 1) + m * bs" by arith
  then have "(m * bs + bs - 1) div bs = ((bs - 1) + m * bs) div bs" by (rule arg_cong)
  also have "\<dots> = m + (bs - 1) div bs"
    by (rule div_mult_self1) (use assms in simp)
  also have "(bs - 1) div bs = 0" using assms by simp
  finally show ?thesis by simp
qed

lemma batch_ds_nth:
  "i < length (batch_ds bs xs) \<Longrightarrow> batch_ds bs xs ! i = take bs (drop (i * bs) xs)"
  by (simp add: batch_ds_def)

lemma batch_repeat_commute:
  assumes bs: "0 < bs" and dv: "bs dvd length xs"
  shows "take k (batch_ds bs (repeat_ds xs (k * bs))) = repeat_ds (batch_ds bs xs) k"
proof (cases "xs = []")
  case True
  then show ?thesis using bs by (simp add: repeat_ds_def batch_ds_def)
next
  case False
  from dv obtain m where N: "length xs = m * bs" by (auto simp: dvd_def mult.commute)
  with False bs have m: "0 < m" by (cases m) auto
  have lb: "length (batch_ds bs xs) = m"
    using ceil_blocks [OF bs, of m] by (simp add: length_batch_ds N)
  then have ne: "batch_ds bs xs \<noteq> []" using m by auto
  have lr: "length (repeat_ds xs (k * bs)) = k * bs"
    using False by (simp add: length_repeat_ds)
  have lbr: "length (batch_ds bs (repeat_ds xs (k * bs))) = k"
    using ceil_blocks [OF bs, of k] by (simp add: length_batch_ds lr)
  have "batch_ds bs (repeat_ds xs (k * bs)) = repeat_ds (batch_ds bs xs) k"
  proof (rule nth_equalityI)
    show "length (batch_ds bs (repeat_ds xs (k * bs))) = length (repeat_ds (batch_ds bs xs) k)"
      using ne by (simp add: lbr length_repeat_ds)
  next
    fix i assume "i < length (batch_ds bs (repeat_ds xs (k * bs)))"
    then have i: "i < k" by (simp add: lbr)
    then have "Suc i \<le> k" by simp
    then have "Suc i * bs \<le> k * bs" by (rule mult_le_mono1)
    then have fit: "i * bs + bs \<le> length (repeat_ds xs (k * bs))" by (simp add: lr)
    have "i mod m < m" using m by simp
    then have "Suc (i mod m) \<le> m" by simp
    then have "Suc (i mod m) * bs \<le> m * bs" by (rule mult_le_mono1)
    then have fit': "(i mod m) * bs + bs \<le> length xs" by (simp add: N)
    have left: "batch_ds bs (repeat_ds xs (k * bs)) ! i
                = map (\<lambda>j. repeat_ds xs (k * bs) ! (i * bs + j)) [0..<bs]"
      using i take_drop_nth [OF fit] by (simp add: batch_ds_nth lbr)
    have right: "repeat_ds (batch_ds bs xs) k ! i
                = map (\<lambda>j. xs ! ((i mod m) * bs + j)) [0..<bs]"
      using i ne m take_drop_nth [OF fit'] by (simp add: repeat_ds_def lb batch_ds_nth)
    have "map (\<lambda>j. repeat_ds xs (k * bs) ! (i * bs + j)) [0..<bs]
          = map (\<lambda>j. xs ! ((i mod m) * bs + j)) [0..<bs]"
    proof (rule map_cong [OF refl])
      fix j assume "j \<in> set [0..<bs]"
      then have j: "j < bs" by simp
      with fit have "i * bs + j < k * bs" by (simp add: lr)
      then have "repeat_ds xs (k * bs) ! (i * bs + j) = xs ! ((i * bs + j) mod (m * bs))"
        using False by (simp add: repeat_ds_def N)
      then show "repeat_ds xs (k * bs) ! (i * bs + j) = xs ! ((i mod m) * bs + j)"
        by (simp add: mod_block [OF j])
    qed
    with left right show "batch_ds bs (repeat_ds xs (k * bs)) ! i = repeat_ds (batch_ds bs xs) k ! i"
      by simp
  qed
  moreover have "take k (batch_ds bs (repeat_ds xs (k * bs))) = batch_ds bs (repeat_ds xs (k * bs))"
    using lbr by simp
  ultimately show ?thesis by simp
qed

lemma fold_max_le: "a \<le> L \<Longrightarrow> \<forall>x \<in> set xs. x \<le> L \<Longrightarrow> fold max xs a \<le> (L::nat)"
  by (induction xs arbitrary: a) auto

lemma fold_max_ge_init: "a \<le> fold max xs (a::nat)"
proof (induction xs arbitrary: a)
  case Nil
  show ?case by simp
next
  case (Cons x xs)
  have "a \<le> max x a" by simp
  also have "\<dots> \<le> fold max xs (max x a)" by (rule Cons.IH)
  finally show ?case by simp
qed

lemma fold_max_ge: "x \<in> set xs \<Longrightarrow> x \<le> fold max xs (a::nat)"
proof (induction xs arbitrary: a)
  case Nil
  then show ?case by simp
next
  case (Cons y xs)
  show ?case
  proof (cases "x = y")
    case True
    have "x \<le> max y a" using True by simp
    also have "\<dots> \<le> fold max xs (max y a)" by (rule fold_max_ge_init)
    finally show ?thesis by simp
  next
    case False
    with Cons.prems have "x \<in> set xs" by simp
    then have "x \<le> fold max xs (max y a)" by (rule Cons.IH)
    then show ?thesis by simp
  qed
qed

lemma pad_to_id_iff: "pad_to m l = l \<longleftrightarrow> m \<le> length l"
  by (simp add: pad_to_def)

lemma batched_value:
  "process_image_tfrecord_batched dj cv (parse_function_batched pse b)
   = (map (\<lambda>r. cv (dj (image_field (pse r)) 0)) b,
      map (\<lambda>r. pad_to (fold max (map (\<lambda>r. length (label_field (pse r))) b) 0)
                  (label_field (pse r))) b)"
  by (simp add: process_image_tfrecord_batched_def parse_function_batched_def
      parse_example_def map_fn_def Let_def comp_def)

lemma single_value:
  "unzip_batch (map (\<lambda>r. process_image_tfrecord dj cv (parse_function pse r)) b)
   = (map (\<lambda>r. cv (dj (image_field (pse r)) 3)) b, map (\<lambda>r. label_field (pse r)) b)"
  by (simp add: unzip_batch_def process_image_tfrecord_def parse_function_def Let_def comp_def)

lemma batched_functions_agree_iff:
  "process_image_tfrecord_batched dj cv (parse_function_batched pse b)
     = unzip_batch (map (\<lambda>r. process_image_tfrecord dj cv (parse_function pse r)) b)
   \<longleftrightarrow> (\<forall>r \<in> set b. cv (dj (image_field (pse r)) 0) = cv (dj (image_field (pse r)) 3))
     \<and> (\<forall>r \<in> set b. \<forall>r' \<in> set b.
           length (label_field (pse r)) = length (label_field (pse r')))"
proof -
  define longest where "longest = fold max (map (\<lambda>r. length (label_field (pse r))) b) 0"
  have ge: "length (label_field (pse r)) \<le> longest" if "r \<in> set b" for r
    unfolding longest_def by (rule fold_max_ge) (use that in simp)
  have labs: "(\<forall>r \<in> set b. longest \<le> length (label_field (pse r)))
              \<longleftrightarrow> (\<forall>r \<in> set b. \<forall>r' \<in> set b.
                     length (label_field (pse r)) = length (label_field (pse r')))"
  proof
    assume a: "\<forall>r \<in> set b. longest \<le> length (label_field (pse r))"
    show "\<forall>r \<in> set b. \<forall>r' \<in> set b.
            length (label_field (pse r)) = length (label_field (pse r'))"
    proof (intro ballI)
      fix r r' assume r: "r \<in> set b" and r': "r' \<in> set b"
      from a r ge [OF r] have "length (label_field (pse r)) = longest" by force
      moreover from a r' ge [OF r'] have "length (label_field (pse r')) = longest" by force
      ultimately show "length (label_field (pse r)) = length (label_field (pse r'))" by simp
    qed
  next
    assume e: "\<forall>r \<in> set b. \<forall>r' \<in> set b.
                 length (label_field (pse r)) = length (label_field (pse r'))"
    show "\<forall>r \<in> set b. longest \<le> length (label_field (pse r))"
    proof
      fix r assume r: "r \<in> set b"
      have "fold max (map (\<lambda>r. length (label_field (pse r))) b) 0
              \<le> length (label_field (pse r))"
      proof (rule fold_max_le)
        show "0 \<le> length (label_field (pse r))" by simp
        show "\<forall>x \<in> set (map (\<lambda>r. length (label_field (pse r))) b).
                x \<le> length (label_field (pse r))"
        proof
          fix x assume "x \<in> set (map (\<lambda>r. length (label_field (pse r))) b)"
          then obtain q where q: "q \<in> set b" "x = length (label_field (pse q))" by auto
          from e q(1) r have "length (label_field (pse q)) = length (label_field (pse r))"
            by blast
          with q(2) show "x \<le> length (label_field (pse r))" by simp
        qed
      qed
      then show "longest \<le> length (label_field (pse r))" by (simp only: longest_def)
    qed
  qed
  have "process_image_tfrecord_batched dj cv (parse_function_batched pse b)
          = unzip_batch (map (\<lambda>r. process_image_tfrecord dj cv (parse_function pse r)) b)
        \<longleftrightarrow> (\<forall>r \<in> set b. cv (dj (image_field (pse r)) 0) = cv (dj (image_field (pse r)) 3))
          \<and> (\<forall>r \<in> set b. longest \<le> length (label_field (pse r)))"
    unfolding batched_value single_value longest_def [symmetric]
    by (simp only: prod.inject map_eq_conv pad_to_id_iff)
  with labs show ?thesis by simp
qed

lemma repeat_ds_self: "repeat_ds xs (length xs) = xs"
proof (cases "xs = []")
  case True
  then show ?thesis by (simp add: repeat_ds_def)
next
  case False
  have "map (\<lambda>i. xs ! (i mod length xs)) [0..<length xs] = map (\<lambda>i. xs ! i) [0..<length xs]"
    by (rule map_cong [OF refl]) simp
  also have "\<dots> = xs" by (rule map_nth)
  finally show ?thesis using False by (simp add: repeat_ds_def)
qed

lemma batch_ds_cover:
  assumes bs: "0 < bs" and r: "r \<in> set xs"
  shows "\<exists>b \<in> set (batch_ds bs xs). r \<in> set b"
proof -
  from r obtain j where j: "j < length xs" "xs ! j = r" by (auto simp: in_set_conv_nth)
  define i where "i = j div bs"
  have ilt: "i < length (batch_ds bs xs)"
  proof -
    have "j + bs \<le> length xs + bs - 1" using j(1) by simp
    then have "(j + bs) div bs \<le> (length xs + bs - 1) div bs" by (rule div_le_mono)
    moreover have "(j + bs) div bs = j div bs + 1"
      by (rule div_add_self2) (use bs in simp)
    ultimately show ?thesis by (simp add: length_batch_ds i_def)
  qed
  define a where "a = i * bs"
  have lo: "a \<le> j" by (simp add: a_def i_def)
  have hi: "j < a + bs" unfolding a_def i_def using bs dividend_less_div_times [of bs j]
    by (simp add: add.commute)
  have "r \<in> set (take bs (drop a xs))"
  proof -
    have "j - a < length (take bs (drop a xs))"
      using lo hi j(1) by simp arith
    moreover have "take bs (drop a xs) ! (j - a) = xs ! j"
      using lo hi j(1) by simp
    ultimately show ?thesis using j(2) by (metis nth_mem)
  qed
  then have "r \<in> set (batch_ds bs xs ! i)"
    using ilt by (simp add: batch_ds_nth a_def)
  with ilt show ?thesis by (metis nth_mem)
qed

lemma blocks_cover:
  fixes N bs :: nat
  assumes "0 < bs"
  shows "N \<le> ((N + bs - 1) div bs) * bs"
proof -
  from assms dividend_less_div_times [of bs "N + bs - 1"]
  have "N + bs - 1 < bs + ((N + bs - 1) div bs) * bs" by simp
  with assms show ?thesis by simp
qed

lemma length_repeated_batch:
  assumes bs: "0 < bs" and ne: "xs \<noteq> []" and i: "i < k"
  shows "length (batch_ds bs (repeat_ds xs (k * bs)) ! i) = bs"
proof -
  have lr: "length (repeat_ds xs (k * bs)) = k * bs"
    using ne by (simp add: length_repeat_ds)
  have lb: "length (batch_ds bs (repeat_ds xs (k * bs))) = k"
    using ceil_blocks [OF bs, of k] by (simp add: length_batch_ds lr)
  from i have "Suc i \<le> k" by simp
  then have "Suc i * bs \<le> k * bs" by (rule mult_le_mono1)
  then have "i * bs + bs \<le> k * bs" by simp
  then show ?thesis
    using i by (simp add: batch_ds_nth lb lr)
qed

lemma build_dataset_test_stream:
  assumes "0 < batch_size"
  shows "build_dataset_test interleave tfr pse dj cv dataset batch_size
         = Inr (\<lambda>k. map unzip_batch
                  (take k (batch_ds batch_size
                     (repeat_ds (map (\<lambda>r. process_image_tfrecord dj cv (parse_function pse r))
                                   (interleave (get_tfrecord tfr) dataset))
                        (k * batch_size)))))"
  using assms
  by (simp add: build_dataset_test_def batch_stream_def prefetch_def Let_def comp_def)

lemma build_dataset_test_batched_stream:
  assumes "0 < batch_size"
  shows "build_dataset_test_batched interleave tfr pse dj cv dataset batch_size
         = Inr (repeat_ds
                  (map (\<lambda>b. process_image_tfrecord_batched dj cv (parse_function_batched pse b))
                     (batch_ds batch_size (interleave (get_tfrecord tfr) dataset))))"
  using assms
  by (simp add: build_dataset_test_batched_def batch_def prefetch_def Let_def comp_def)

lemma batch_ds_nonempty:
  assumes "0 < bs" "xs \<noteq> []"
  shows "batch_ds bs xs \<noteq> []"
proof -
  from assms have "bs \<le> length xs + bs - 1" by (cases xs) auto
  with assms(1) have "0 < (length xs + bs - 1) div bs" by (simp add: div_greater_zero_iff)
  then show ?thesis using length_batch_ds [of bs xs] by auto
qed

lemma streams_agree_iff:
  fixes f :: "'r \<Rightarrow> 'i \<times> 'l" and g :: "'r list \<Rightarrow> 'i list \<times> 'l list"
  assumes bs: "0 < bs"
    and glen: "\<And>b. length (fst (g b)) = length b"
  shows "(\<forall>k. map unzip_batch (take k (batch_ds bs (repeat_ds (map f xs) (k * bs))))
              = repeat_ds (map g (batch_ds bs xs)) k)
         \<longleftrightarrow> bs dvd length xs \<and> (\<forall>b \<in> set (batch_ds bs xs). g b = unzip_batch (map f b))"
proof -
  define B where "B = batch_ds bs xs"
  define m where "m = length B"
  have under_dvd: "map unzip_batch (take k (batch_ds bs (repeat_ds (map f xs) (k * bs))))
                   = repeat_ds (map (\<lambda>b. unzip_batch (map f b)) B) k"
    if dv: "bs dvd length xs" for k
  proof -
    have "take k (batch_ds bs (repeat_ds (map f xs) (k * bs)))
          = repeat_ds (batch_ds bs (map f xs)) k"
      using dv by (intro batch_repeat_commute [OF bs]) simp
    also have "\<dots> = map (map f) (repeat_ds B k)"
      by (simp add: batch_ds_map repeat_ds_map B_def)
    finally have "map unzip_batch (take k (batch_ds bs (repeat_ds (map f xs) (k * bs))))
          = map (\<lambda>b. unzip_batch (map f b)) (repeat_ds B k)"
      by simp
    then show ?thesis by (simp add: repeat_ds_map)
  qed
  show ?thesis
  proof
    assume r: "bs dvd length xs \<and> (\<forall>b \<in> set (batch_ds bs xs). g b = unzip_batch (map f b))"
    then have gm: "map g B = map (\<lambda>b. unzip_batch (map f b)) B"
      unfolding B_def by (intro map_cong [OF refl]) simp
    from r have dv: "bs dvd length xs" by (rule conjunct1)
    show "\<forall>k. map unzip_batch (take k (batch_ds bs (repeat_ds (map f xs) (k * bs))))
              = repeat_ds (map g (batch_ds bs xs)) k"
    proof
      fix k
      have "map unzip_batch (take k (batch_ds bs (repeat_ds (map f xs) (k * bs))))
            = repeat_ds (map (\<lambda>b. unzip_batch (map f b)) B) k"
        by (rule under_dvd [OF dv])
      also have "\<dots> = repeat_ds (map g B) k" by (simp only: gm)
      finally show "map unzip_batch (take k (batch_ds bs (repeat_ds (map f xs) (k * bs))))
                    = repeat_ds (map g (batch_ds bs xs)) k"
        unfolding B_def .
    qed
  next
    assume eq: "\<forall>k. map unzip_batch (take k (batch_ds bs (repeat_ds (map f xs) (k * bs))))
                  = repeat_ds (map g (batch_ds bs xs)) k"
    have dv: "bs dvd length xs"
    proof (cases "xs = []")
      case True
      then show ?thesis by simp
    next
      case False
      then have Bne: "B \<noteq> []" unfolding B_def using bs by (intro batch_ds_nonempty)
      then have m: "0 < m" by (simp add: m_def)
      define i where "i = m - 1"
      have i: "i < m" using m by (simp add: i_def)
      have fne: "map f xs \<noteq> []" using False by simp
      have lr: "length (repeat_ds (map f xs) (m * bs)) = m * bs"
        using False by (simp add: length_repeat_ds)
      have lb: "length (batch_ds bs (repeat_ds (map f xs) (m * bs))) = m"
        using ceil_blocks [OF bs, of m] by (simp add: length_batch_ds lr)
      have left: "length (fst (map unzip_batch
                     (take m (batch_ds bs (repeat_ds (map f xs) (m * bs)))) ! i)) = bs"
        using i lb length_repeated_batch [OF bs fne i]
        by (simp add: unzip_batch_def)
      have "repeat_ds (map g B) m = map g B"
        using repeat_ds_self [of "map g B"] by (simp add: m_def)
      then have right: "length (fst (repeat_ds (map g (batch_ds bs xs)) m ! i))
                        = length (B ! i)"
        using i by (simp add: B_def [symmetric] m_def glen)
      from eq have "map unzip_batch (take m (batch_ds bs (repeat_ds (map f xs) (m * bs))))
                  = repeat_ds (map g (batch_ds bs xs)) m"
        by (rule spec)
      with left right have "length (B ! i) = bs" by simp
      moreover have "B ! i = take bs (drop (i * bs) xs)"
        unfolding B_def by (rule batch_ds_nth) (use i in \<open>simp add: m_def B_def\<close>)
      ultimately have "min (length xs - i * bs) bs = bs" by simp
      then have "i * bs + bs \<le> length xs" using bs by (simp add: min_def split: if_splits)
      moreover have "i * bs + bs = m * bs"
      proof -
        have "Suc i = m" using m by (simp add: i_def)
        then have "Suc i * bs = m * bs" by simp
        then show ?thesis by simp
      qed
      moreover have "length xs \<le> m * bs"
        using blocks_cover [OF bs, of "length xs"] by (simp add: m_def B_def length_batch_ds)
      ultimately have "length xs = m * bs" by simp
      then show ?thesis by simp
    qed
    have "map (\<lambda>b. unzip_batch (map f b)) B = map g B"
    proof -
      have "repeat_ds (map (\<lambda>b. unzip_batch (map f b)) B) m
            = repeat_ds (map g B) m"
        using eq under_dvd [OF dv] by (simp add: B_def)
      moreover have "repeat_ds (map (\<lambda>b. unzip_batch (map f b)) B) m
                     = map (\<lambda>b. unzip_batch (map f b)) B"
        using repeat_ds_self [of "map (\<lambda>b. unzip_batch (map f b)) B"] by (simp add: m_def)
      moreover have "repeat_ds (map g B) m = map g B"
        using repeat_ds_self [of "map g B"] by (simp add: m_def)
      ultimately show ?thesis by simp
    qed
    then have "\<forall>b \<in> set B. g b = unzip_batch (map f b)"
      by (simp only: map_eq_conv) simp
    with dv show "bs dvd length xs \<and> (\<forall>b \<in> set (batch_ds bs xs). g b = unzip_batch (map f b))"
      by (simp add: B_def)
  qed
qed

text \<open>
  Claim C2, amended.  A batch size of zero is refused by both versions of
  \<open>build_dataset_test\<close>.  For a positive batch size the two versions are the same
  dataset, element for element, exactly when the batch size divides the number of
  records the interleaved files hold, decoding with the default number of channels
  and converting gives the same image as decoding with three channels and
  converting, on every record, and within each batch of consecutive records all
  labels have the same length.  With a positive batch size and records present, each
  version delivers \<open>k\<close> batches in \<open>k\<close> steps for every \<open>k\<close>.
\<close>

theorem build_dataset_test_versions_agree:
  "(batch_size = 0 \<longrightarrow>
      build_dataset_test interleave tfr pse decode_jpeg cv dataset batch_size
        = Inl InvalidArgumentError
    \<and> build_dataset_test_batched interleave tfr pse decode_jpeg cv dataset batch_size
        = Inl InvalidArgumentError)
   \<and> (0 < batch_size \<longrightarrow>
        (build_dataset_test interleave tfr pse decode_jpeg cv dataset batch_size
           = build_dataset_test_batched interleave tfr pse decode_jpeg cv dataset batch_size
         \<longleftrightarrow>
           batch_size dvd length (interleave (get_tfrecord tfr) dataset)
         \<and> (\<forall>r \<in> set (interleave (get_tfrecord tfr) dataset).
               cv (decode_jpeg (image_field (pse r)) 0)
                 = cv (decode_jpeg (image_field (pse r)) 3))
         \<and> (\<forall>b \<in> set (batch_ds batch_size (interleave (get_tfrecord tfr) dataset)).
               \<forall>r \<in> set b. \<forall>r' \<in> set b.
                 length (label_field (pse r)) = length (label_field (pse r')))))
   \<and> (0 < batch_size \<and> interleave (get_tfrecord tfr) dataset \<noteq> [] \<longrightarrow>
        (\<exists>s. build_dataset_test interleave tfr pse decode_jpeg cv dataset batch_size = Inr s
            \<and> (\<forall>k. length (s k) = k))
      \<and> (\<exists>s. build_dataset_test_batched interleave tfr pse decode_jpeg cv dataset batch_size
                = Inr s
            \<and> (\<forall>k. length (s k) = k)))"
proof (intro conjI impI)
  assume "batch_size = 0"
  then show "build_dataset_test interleave tfr pse decode_jpeg cv dataset batch_size
        = Inl InvalidArgumentError"
    by (simp add: build_dataset_test_def batch_stream_def Let_def)
next
  assume "batch_size = 0"
  then show "build_dataset_test_batched interleave tfr pse decode_jpeg cv dataset batch_size
        = Inl InvalidArgumentError"
    by (simp add: build_dataset_test_batched_def batch_def Let_def)
next
  assume bs: "0 < batch_size"
  define records where "records = interleave (get_tfrecord tfr) dataset"
  define f where "f = (\<lambda>r. process_image_tfrecord decode_jpeg cv (parse_function pse r))"
  define g where "g = (\<lambda>b. process_image_tfrecord_batched decode_jpeg cv
                              (parse_function_batched pse b))"
  have glen: "length (fst (g b)) = length b" for b
    by (simp add: g_def batched_value)
  have v1: "build_dataset_test interleave tfr pse decode_jpeg cv dataset batch_size
            = Inr (\<lambda>k. map unzip_batch
                     (take k (batch_ds batch_size (repeat_ds (map f records) (k * batch_size)))))"
    unfolding f_def records_def by (rule build_dataset_test_stream [OF bs])
  have v2: "build_dataset_test_batched interleave tfr pse decode_jpeg cv dataset batch_size
            = Inr (repeat_ds (map g (batch_ds batch_size records)))"
    unfolding g_def records_def by (rule build_dataset_test_batched_stream [OF bs])
  have "build_dataset_test interleave tfr pse decode_jpeg cv dataset batch_size
           = build_dataset_test_batched interleave tfr pse decode_jpeg cv dataset batch_size
        \<longleftrightarrow> (\<forall>k. map unzip_batch
                     (take k (batch_ds batch_size (repeat_ds (map f records) (k * batch_size))))
                  = repeat_ds (map g (batch_ds batch_size records)) k)"
    unfolding v1 v2 by (simp add: fun_eq_iff)
  also have "\<dots> \<longleftrightarrow> batch_size dvd length records
                \<and> (\<forall>b \<in> set (batch_ds batch_size records). g b = unzip_batch (map f b))"
    by (rule streams_agree_iff [OF bs glen])
  also have "\<dots> \<longleftrightarrow> batch_size dvd length records
         \<and> (\<forall>r \<in> set records.
               cv (decode_jpeg (image_field (pse r)) 0)
                 = cv (decode_jpeg (image_field (pse r)) 3))
         \<and> (\<forall>b \<in> set (batch_ds batch_size records).
               \<forall>r \<in> set b. \<forall>r' \<in> set b.
                 length (label_field (pse r)) = length (label_field (pse r')))"
  proof -
    have per: "(\<forall>b \<in> set (batch_ds batch_size records). g b = unzip_batch (map f b))
          \<longleftrightarrow> (\<forall>b \<in> set (batch_ds batch_size records).
                 (\<forall>r \<in> set b. cv (decode_jpeg (image_field (pse r)) 0)
                                 = cv (decode_jpeg (image_field (pse r)) 3))
               \<and> (\<forall>r \<in> set b. \<forall>r' \<in> set b.
                     length (label_field (pse r)) = length (label_field (pse r'))))"
      unfolding g_def f_def by (simp only: batched_functions_agree_iff)
    have dec: "(\<forall>b \<in> set (batch_ds batch_size records).
                  \<forall>r \<in> set b. cv (decode_jpeg (image_field (pse r)) 0)
                                 = cv (decode_jpeg (image_field (pse r)) 3))
          \<longleftrightarrow> (\<forall>r \<in> set records.
                  cv (decode_jpeg (image_field (pse r)) 0)
                    = cv (decode_jpeg (image_field (pse r)) 3))"
    proof
      assume a: "\<forall>b \<in> set (batch_ds batch_size records).
                  \<forall>r \<in> set b. cv (decode_jpeg (image_field (pse r)) 0)
                                 = cv (decode_jpeg (image_field (pse r)) 3)"
      show "\<forall>r \<in> set records.
                  cv (decode_jpeg (image_field (pse r)) 0)
                    = cv (decode_jpeg (image_field (pse r)) 3)"
      proof
        fix r assume "r \<in> set records"
        from batch_ds_cover [OF bs this] obtain b
          where "b \<in> set (batch_ds batch_size records)" "r \<in> set b" by blast
        with a show "cv (decode_jpeg (image_field (pse r)) 0)
                    = cv (decode_jpeg (image_field (pse r)) 3)" by blast
      qed
    next
      assume a: "\<forall>r \<in> set records.
                  cv (decode_jpeg (image_field (pse r)) 0)
                    = cv (decode_jpeg (image_field (pse r)) 3)"
      show "\<forall>b \<in> set (batch_ds batch_size records).
                  \<forall>r \<in> set b. cv (decode_jpeg (image_field (pse r)) 0)
                                 = cv (decode_jpeg (image_field (pse r)) 3)"
      proof (intro ballI)
        fix b r assume "b \<in> set (batch_ds batch_size records)" "r \<in> set b"
        with batch_ds_subset [of b batch_size records] have "r \<in> set records" by blast
        with a show "cv (decode_jpeg (image_field (pse r)) 0)
                    = cv (decode_jpeg (image_field (pse r)) 3)" by blast
      qed
    qed
    from per dec show ?thesis by blast
  qed
  finally show "build_dataset_test interleave tfr pse decode_jpeg cv dataset batch_size
           = build_dataset_test_batched interleave tfr pse decode_jpeg cv dataset batch_size
         \<longleftrightarrow>
           batch_size dvd length (interleave (get_tfrecord tfr) dataset)
         \<and> (\<forall>r \<in> set (interleave (get_tfrecord tfr) dataset).
               cv (decode_jpeg (image_field (pse r)) 0)
                 = cv (decode_jpeg (image_field (pse r)) 3))
         \<and> (\<forall>b \<in> set (batch_ds batch_size (interleave (get_tfrecord tfr) dataset)).
               \<forall>r \<in> set b. \<forall>r' \<in> set b.
                 length (label_field (pse r)) = length (label_field (pse r')))"
    unfolding records_def .
next
  assume a: "0 < batch_size \<and> interleave (get_tfrecord tfr) dataset \<noteq> []"
  then have bs: "0 < batch_size" and ne: "interleave (get_tfrecord tfr) dataset \<noteq> []"
    by simp_all
  define f where "f = (\<lambda>r. process_image_tfrecord decode_jpeg cv (parse_function pse r))"
  have lr: "length (repeat_ds (map f (interleave (get_tfrecord tfr) dataset)) (k * batch_size))
            = k * batch_size" for k
    using ne by (simp add: length_repeat_ds)
  have "length (take k (batch_ds batch_size
                  (repeat_ds (map f (interleave (get_tfrecord tfr) dataset))
                     (k * batch_size)))) = k" for k
    using ceil_blocks [OF bs, of k] by (simp add: length_batch_ds lr)
  then show "\<exists>s. build_dataset_test interleave tfr pse decode_jpeg cv dataset batch_size = Inr s
            \<and> (\<forall>k. length (s k) = k)"
    unfolding build_dataset_test_stream [OF bs] f_def by simp
next
  assume a: "0 < batch_size \<and> interleave (get_tfrecord tfr) dataset \<noteq> []"
  then have bs: "0 < batch_size" and ne: "interleave (get_tfrecord tfr) dataset \<noteq> []"
    by simp_all
  from batch_ds_nonempty [OF bs ne]
  show "\<exists>s. build_dataset_test_batched interleave tfr pse decode_jpeg cv dataset batch_size
                = Inr s
            \<and> (\<forall>k. length (s k) = k)"
    unfolding build_dataset_test_batched_stream [OF bs] by (simp add: length_repeat_ds)
qed

text \<open>One file of four records read in batches of two, one file of three records
  read in batches of two, and a batch size of zero.\<close>

theorem build_dataset_test_versions_agree_witness:
  "(2::nat) dvd length (interleave_sequential (get_tfrecord (\<lambda>filename::string. [1, 2, 3, 4::nat]))
                          [''part-0''])
   \<and> build_dataset_test interleave_sequential (\<lambda>filename::string. [1, 2, 3, 4::nat])
        (\<lambda>r. \<lparr>image_field = r, label_field = [0]\<rparr>) (\<lambda>(b::nat) channels. b) (\<lambda>i::nat. i)
        [''part-0''] 2
     = build_dataset_test_batched interleave_sequential (\<lambda>filename::string. [1, 2, 3, 4::nat])
        (\<lambda>r. \<lparr>image_field = r, label_field = [0]\<rparr>) (\<lambda>(b::nat) channels. b) (\<lambda>i::nat. i)
        [''part-0''] 2
   \<and> (\<exists>s. build_dataset_test_batched interleave_sequential
              (\<lambda>filename::string. [1, 2, 3, 4::nat])
              (\<lambda>r. \<lparr>image_field = r, label_field = [0]\<rparr>) (\<lambda>(b::nat) channels. b)
              (\<lambda>i::nat. i) [''part-0''] 2 = Inr s
          \<and> length (s 5) = 5)
   \<and> \<not> (2::nat) dvd length (interleave_sequential
                              (get_tfrecord (\<lambda>filename::string. [1, 2, 3::nat])) [''part-0''])
   \<and> build_dataset_test interleave_sequential (\<lambda>filename::string. [1, 2, 3::nat])
        (\<lambda>r. \<lparr>image_field = r, label_field = [0]\<rparr>) (\<lambda>(b::nat) channels. b) (\<lambda>i::nat. i)
        [''part-0''] 2
     \<noteq> build_dataset_test_batched interleave_sequential (\<lambda>filename::string. [1, 2, 3::nat])
        (\<lambda>r. \<lparr>image_field = r, label_field = [0]\<rparr>) (\<lambda>(b::nat) channels. b) (\<lambda>i::nat. i)
        [''part-0''] 2
   \<and> build_dataset_test interleave_sequential (\<lambda>filename::string. [1, 2, 3::nat])
        (\<lambda>r. \<lparr>image_field = r, label_field = [0]\<rparr>) (\<lambda>(b::nat) channels. b) (\<lambda>i::nat. i)
        [''part-0''] 0
     = Inl InvalidArgumentError"
proof -
  let ?four = "\<lambda>filename::string. [1, 2, 3, 4::nat]"
  let ?three = "\<lambda>filename::string. [1, 2, 3::nat]"
  let ?pse = "\<lambda>r::nat. \<lparr>image_field = r, label_field = [0::int]\<rparr>"
  let ?dj = "\<lambda>(b::nat) (channels::nat). b"
  let ?cv = "\<lambda>i::nat. i"
  have two: "(0::nat) < 2" by simp
  have dv: "(2::nat) dvd length (interleave_sequential (get_tfrecord ?four) [''part-0''])"
    by (simp add: interleave_sequential_def get_tfrecord_def)
  have ndv: "\<not> (2::nat) dvd length (interleave_sequential (get_tfrecord ?three) [''part-0''])"
    by (simp add: interleave_sequential_def get_tfrecord_def)
  have ne: "interleave_sequential (get_tfrecord ?four) [''part-0''] \<noteq> []"
    by (simp add: interleave_sequential_def get_tfrecord_def)
  have dec: "\<forall>r \<in> set (interleave_sequential (get_tfrecord ?four) [''part-0'']).
               ?cv (?dj (image_field (?pse r)) 0) = ?cv (?dj (image_field (?pse r)) 3)"
    by simp
  have lab: "\<forall>b \<in> set (batch_ds 2 (interleave_sequential (get_tfrecord ?four) [''part-0''])).
             \<forall>r \<in> set b. \<forall>r' \<in> set b.
               length (label_field (?pse r)) = length (label_field (?pse r'))"
    by simp
  note t4 = build_dataset_test_versions_agree
      [where batch_size = 2 and interleave = interleave_sequential and tfr = ?four
         and dataset = "[''part-0'']" and decode_jpeg = ?dj and pse = ?pse and cv = ?cv]
  note t3 = build_dataset_test_versions_agree
      [where batch_size = 2 and interleave = interleave_sequential and tfr = ?three
         and dataset = "[''part-0'']" and decode_jpeg = ?dj and pse = ?pse and cv = ?cv]
  note t0 = build_dataset_test_versions_agree
      [where batch_size = 0 and interleave = interleave_sequential and tfr = ?three
         and dataset = "[''part-0'']" and decode_jpeg = ?dj and pse = ?pse and cv = ?cv]
  from t4 two dv dec lab
  have eq: "build_dataset_test interleave_sequential ?four ?pse ?dj ?cv [''part-0''] 2
            = build_dataset_test_batched interleave_sequential ?four ?pse ?dj ?cv [''part-0''] 2"
    by blast
  from t4 two ne
  have "\<exists>s. build_dataset_test_batched interleave_sequential ?four ?pse ?dj ?cv [''part-0''] 2
              = Inr s \<and> (\<forall>k. length (s k) = k)"
    by blast
  then obtain s where s: "build_dataset_test_batched interleave_sequential ?four ?pse ?dj ?cv
                            [''part-0''] 2 = Inr s"
    and len: "\<forall>k. length (s k) = k"
    by (elim exE conjE)
  from len have "length (s 5) = 5" by (rule spec)
  with s have ex: "\<exists>s. build_dataset_test_batched interleave_sequential ?four ?pse ?dj ?cv
                    [''part-0''] 2 = Inr s \<and> length (s 5) = 5"
    by (intro exI conjI)
  from t3 two ndv
  have neq: "build_dataset_test interleave_sequential ?three ?pse ?dj ?cv [''part-0''] 2
            \<noteq> build_dataset_test_batched interleave_sequential ?three ?pse ?dj ?cv
                [''part-0''] 2"
    by blast
  from t0 have z: "build_dataset_test interleave_sequential ?three ?pse ?dj ?cv [''part-0''] 0
                   = Inl InvalidArgumentError"
    by blast
  from dv eq ex ndv neq z show ?thesis by (intro conjI)
qed

text \<open>
  Claim C2 as stated fails when the batch size does not divide the number of
  records.  One file of three records and a batch size of two: the first version
  repeats before it batches, so its second batch is filled up from the next pass
  over the file; the second version batches before it repeats, so its second batch
  is the short one.
\<close>

theorem build_dataset_test_versions_differ:
  "first_elements 2
     (build_dataset_test interleave_sequential (\<lambda>filename::string. [1, 2, 3::nat])
        (\<lambda>r. \<lparr>image_field = r, label_field = [0]\<rparr>) (\<lambda>(b::nat) channels. b) (\<lambda>i::nat. i)
        [''part-0''] 2)
     = Inr [([1, 2], [[0], [0]]), ([3, 1], [[0], [0]])]
   \<and> first_elements 2
     (build_dataset_test_batched interleave_sequential (\<lambda>filename::string. [1, 2, 3::nat])
        (\<lambda>r. \<lparr>image_field = r, label_field = [0]\<rparr>) (\<lambda>(b::nat) channels. b) (\<lambda>i::nat. i)
        [''part-0''] 2)
     = Inr [([1, 2], [[0], [0]]), ([3], [[0]])]
   \<and> build_dataset_test interleave_sequential (\<lambda>filename::string. [1, 2, 3::nat])
        (\<lambda>r. \<lparr>image_field = r, label_field = [0]\<rparr>) (\<lambda>(b::nat) channels. b) (\<lambda>i::nat. i)
        [''part-0''] 2
     \<noteq> build_dataset_test_batched interleave_sequential (\<lambda>filename::string. [1, 2, 3::nat])
        (\<lambda>r. \<lparr>image_field = r, label_field = [0]\<rparr>) (\<lambda>(b::nat) channels. b) (\<lambda>i::nat. i)
        [''part-0''] 2"
proof -
  let ?v1 = "build_dataset_test interleave_sequential (\<lambda>filename::string. [1, 2, 3::nat])
        (\<lambda>r. \<lparr>image_field = r, label_field = [0]\<rparr>) (\<lambda>(b::nat) channels. b) (\<lambda>i::nat. i)
        [''part-0''] 2"
  let ?v2 = "build_dataset_test_batched interleave_sequential (\<lambda>filename::string. [1, 2, 3::nat])
        (\<lambda>r. \<lparr>image_field = r, label_field = [0]\<rparr>) (\<lambda>(b::nat) channels. b) (\<lambda>i::nat. i)
        [''part-0''] 2"
  have a: "first_elements 2 ?v1 = Inr [([1, 2], [[0], [0]]), ([3, 1], [[0], [0]])]"
    by (simp add: first_elements_def build_dataset_test_def interleave_sequential_def
        get_tfrecord_def parse_function_def process_image_tfrecord_def repeat_ds_def
        batch_stream_def batch_ds_def prefetch_def unzip_batch_def Let_def upt_conv_Cons)
  have b: "first_elements 2 ?v2 = Inr [([1, 2], [[0], [0]]), ([3], [[0]])]"
    by (simp add: first_elements_def build_dataset_test_batched_def interleave_sequential_def
        get_tfrecord_def parse_function_batched_def parse_example_def pad_to_def map_fn_def
        process_image_tfrecord_batched_def repeat_ds_def
        batch_def batch_ds_def prefetch_def Let_def upt_conv_Cons)
  have c: "?v1 \<noteq> ?v2"
  proof
    assume "?v1 = ?v2"
    then have "first_elements 2 ?v1 = first_elements 2 ?v2" by (rule arg_cong)
    with a b show False by simp
  qed
  from a b c show ?thesis by (intro conjI)
qed

end
